theory Spec2Isabelle
  imports Complex_Main
begin

section \<open>Data model of the data-flow graph\<close>

text \<open>
  The development embeds \<^verbatim>\<open>thoth/app/dfg/dfg.py\<close>. The entity classes (Function,
  Variable, Operand) and the block classes live in modules that are not part of the
  sources at hand, so their fields are taken from the way \<^verbatim>\<open>dfg.py\<close> reads and
  writes them.

  A Function is read through its \<^verbatim>\<open>id\<close>, \<^verbatim>\<open>name\<close>, \<^verbatim>\<open>is_import\<close> and through three
  calls of \<^verbatim>\<open>arguments_list\<close>: with the default flags, with only \<^verbatim>\<open>explicit\<close> set and
  with only \<^verbatim>\<open>ret\<close> set. The three results are fields of the record. Functions are
  compared with \<^verbatim>\<open>==\<close>; the record stands for the object.
\<close>

datatype error = IndexError

record func =
  fid :: int
  fname :: string
  is_import :: bool
  arguments_list :: "string list"
  arguments_list_explicit :: "string list"
  arguments_list_ret :: "string list"

datatype OperandType = VARIABLE | INTEGER

text \<open>An operand payload is a name or an integer, or a Python list of them.\<close>

datatype atom = Str string | Num int

datatype payload = Scalar atom | Multi "atom list"

text \<open>
  The operation of a direct expression is a sequence whose elements are Operand objects
  or anything else (\<^verbatim>\<open>isinstance(v, Operand)\<close> tells them apart).
\<close>

datatype element = Operand OperandType payload | NonOperand

datatype VariableValue =
    DirectExpression "element list"
  | FUNCTION_CALL func int

record variable =
  v_name :: string
  v_function :: "func option"
  v_is_function_argument :: bool
  v_is_function_return_value :: bool
  v_value :: "VariableValue option"

text \<open>
  Blocks are Python objects that refer to each other. The list \<open>variables_blocks\<close> is
  the store: a Variable Block is addressed by its position in that list, and
  \<open>parents_blocks\<close> and \<open>children_blocks\<close> hold addresses. Comparing two blocks
  (\<^verbatim>\<open>block in tainted_blocks\<close>) compares addresses.
\<close>

record DFGVariableBlock =
  name :: string
  func :: func
  is_function_argument :: bool
  is_function_return_value :: bool
  graph_representation_name :: string
  tainting_coefficient :: real
  parents_blocks :: "nat list"
  children_blocks :: "nat list"

record DFGConstantBlock =
  c_value :: atom
  c_id :: nat
  c_variable :: variable
  c_function :: "func option"

record DFGFunctionCallBlock =
  cb_value :: string
  cb_arguments :: "string list"
  cb_return_values :: "string list"
  cb_function :: "func option"
  cb_call_number :: int

text \<open>The source of an edge is a Variable Block or a Constant Block.\<close>

datatype source = VariableSource nat | ConstantSource nat

record DFGEdge =
  e_source :: source
  e_destination :: nat
  e_function :: "func option"

record DFG =
  variables :: "variable list"
  variables_blocks :: "DFGVariableBlock list"
  constants_blocks :: "DFGConstantBlock list"
  functions_calls_blocks :: "DFGFunctionCallBlock list"
  edges :: "DFGEdge list"
  all_functions_arguments :: "string list"

text \<open>
  \<^verbatim>\<open>DFG.__init__\<close>: the block and edge lists start empty;
  \<^verbatim>\<open>filter(None, ...)\<close> drops the variables without a function, and
  \<^verbatim>\<open>sum(..., [])\<close> concatenates the argument lists.
\<close>

definition all_functions :: "variable list \<Rightarrow> func list" where
  "all_functions vs = List.map_filter v_function vs"

definition DFG_init :: "variable list \<Rightarrow> DFG" where
  "DFG_init vs =
     \<lparr> variables = vs,
       variables_blocks = [],
       constants_blocks = [],
       functions_calls_blocks = [],
       edges = [],
       all_functions_arguments = concat (map arguments_list (all_functions vs)) \<rparr>"

section \<open>Taint engine\<close>

definition PROPAGATION_COEFFICIENT :: real where
  "PROPAGATION_COEFFICIENT = 7 / 10"

text \<open>
  \<^verbatim>\<open>taint_children_blocks\<close>: the loop over the children reads the parent's
  coefficient at every iteration, so a parent that is its own child changes it midway.
\<close>

fun taint_children_loop ::
  "DFGVariableBlock list \<Rightarrow> nat \<Rightarrow> nat list \<Rightarrow> DFGVariableBlock list" where
  "taint_children_loop bs p [] = bs"
| "taint_children_loop bs p (c # cs) =
     taint_children_loop
       (bs[c := (bs ! c)\<lparr>tainting_coefficient :=
                 PROPAGATION_COEFFICIENT * tainting_coefficient (bs ! p)\<rparr>]) p cs"

definition taint_children_blocks ::
  "DFGVariableBlock list \<Rightarrow> nat \<Rightarrow> DFGVariableBlock list" where
  "taint_children_blocks bs p = taint_children_loop bs p (children_blocks (bs ! p))"

lemma length_taint_children_loop [simp]:
  "length (taint_children_loop bs p cs) = length bs"
  by (induction cs arbitrary: bs) simp_all

lemma length_taint_children_blocks [simp]:
  "length (taint_children_blocks bs p) = length bs"
  by (simp add: taint_children_blocks_def)

text \<open>
  The \<^verbatim>\<open>while\<close> loop of \<^verbatim>\<open>_taint_variable\<close>, on the store, the list
  \<^verbatim>\<open>tainted_blocks\<close> and the queue \<^verbatim>\<open>blocks_to_taint\<close>. The head is tainted and
  appended to \<^verbatim>\<open>tainted_blocks\<close>; each child that is not in \<^verbatim>\<open>tainted_blocks\<close> is
  appended to the queue; the head is popped. The loop returns the store together with
  \<^verbatim>\<open>tainted_blocks\<close>. An object reference of Python always denotes a live object; an
  address outside the store has no counterpart in the source and ends the loop.
\<close>

function taint_loop ::
  "DFGVariableBlock list \<Rightarrow> nat list \<Rightarrow> nat list \<Rightarrow> DFGVariableBlock list \<times> nat list" where
  "taint_loop bs tainted_blocks [] = (bs, tainted_blocks)"
| "taint_loop bs tainted_blocks (h # blocks_to_taint) =
     (if h < length bs then
        taint_loop (taint_children_blocks bs h) (tainted_blocks @ [h])
          (blocks_to_taint @
             filter (\<lambda>block. block \<notin> set (tainted_blocks @ [h]))
               (children_blocks (taint_children_blocks bs h ! h)))
      else (bs, tainted_blocks))"
  by pat_completeness auto

termination
proof (relation "measures [\<lambda>(bs, t, q). card ({i. i < length bs} - set t),
                            \<lambda>(bs, t, q). length (filter (\<lambda>x. x \<in> set t) q)]")
  show "wf (measures [\<lambda>(bs, t, q). card ({i. i < length bs} - set t),
                      \<lambda>(bs, t, q). length (filter (\<lambda>x. x \<in> set t) q)])"
    by simp
next
  fix bs :: "DFGVariableBlock list" and t :: "nat list" and h :: nat and q :: "nat list"
  assume h: "h < length bs"
  let ?q' = "q @ filter (\<lambda>block. block \<notin> set (t @ [h]))
                    (children_blocks (taint_children_blocks bs h ! h))"
  show "((taint_children_blocks bs h, t @ [h], ?q'), (bs, t, h # q))
        \<in> measures [\<lambda>(bs, t, q). card ({i. i < length bs} - set t),
                     \<lambda>(bs, t, q). length (filter (\<lambda>x. x \<in> set t) q)]"
  proof (cases "h \<in> set t")
    case True
    then have eq: "set (t @ [h]) = set t" by auto
    have "filter (\<lambda>x. x \<in> set (t @ [h])) ?q' = filter (\<lambda>x. x \<in> set t) q"
      unfolding filter_append eq by simp
    with True eq show ?thesis by simp
  next
    case False
    have fin: "finite ({i. i < length bs} - set t)" by simp
    have "{i. i < length bs} - set (t @ [h]) \<subset> {i. i < length bs} - set t"
      using h False by auto
    then have "card ({i. i < length bs} - set (t @ [h])) < card ({i. i < length bs} - set t)"
      using fin by (rule psubset_card_mono[rotated])
    then show ?thesis by simp
  qed
qed

definition taint_variable_run ::
  "DFGVariableBlock list \<Rightarrow> nat \<Rightarrow> DFGVariableBlock list \<times> nat list" where
  "taint_variable_run bs source_block =
     taint_loop (bs[source_block := (bs ! source_block)\<lparr>tainting_coefficient := 1\<rparr>])
       [] [source_block]"

definition taint_variable :: "DFGVariableBlock list \<Rightarrow> nat \<Rightarrow> DFGVariableBlock list" where
  "taint_variable bs source_block = fst (taint_variable_run bs source_block)"

text \<open>
  \<^verbatim>\<open>_taint_functions_arguments\<close> walks \<open>variables_blocks\<close> in order and taints from every
  block that is a function argument; \<^verbatim>\<open>_clean_tainting\<close> resets every block.
\<close>

fun taint_arguments_loop ::
  "DFGVariableBlock list \<Rightarrow> nat list \<Rightarrow> DFGVariableBlock list" where
  "taint_arguments_loop bs [] = bs"
| "taint_arguments_loop bs (i # is) =
     taint_arguments_loop
       (if is_function_argument (bs ! i) then taint_variable bs i else bs) is"

definition taint_functions_arguments :: "DFG \<Rightarrow> DFG" where
  "taint_functions_arguments g =
     g\<lparr>variables_blocks :=
         taint_arguments_loop (variables_blocks g) [0..<length (variables_blocks g)]\<rparr>"

definition clean_tainting :: "DFG \<Rightarrow> DFG" where
  "clean_tainting g =
     g\<lparr>variables_blocks :=
         map (\<lambda>block. block\<lparr>tainting_coefficient := 0\<rparr>) (variables_blocks g)\<rparr>"

text \<open>\<^verbatim>\<open>_taint_variable\<close> as a method of the graph.\<close>

definition taint_variable_dfg :: "DFG \<Rightarrow> nat \<Rightarrow> DFG" where
  "taint_variable_dfg g source_block =
     g\<lparr>variables_blocks := taint_variable (variables_blocks g) source_block\<rparr>"

definition taint_children_blocks_dfg :: "DFG \<Rightarrow> nat \<Rightarrow> DFG" where
  "taint_children_blocks_dfg g parent_block =
     g\<lparr>variables_blocks := taint_children_blocks (variables_blocks g) parent_block\<rparr>"

section \<open>Name resolver\<close>

text \<open>Python's \<^verbatim>\<open>str\<close> of an integer, as \<^verbatim>\<open>"%s"\<close> formats the function id.\<close>

fun str_nat :: "nat \<Rightarrow> string" where
  "str_nat n =
     (if n < 10 then [''0123456789'' ! n]
      else str_nat (n div 10) @ [''0123456789'' ! (n mod 10)])"

definition str_int :: "int \<Rightarrow> string" where
  "str_int i = (if i < 0 then ''-'' @ str_nat (nat (- i)) else str_nat (nat i))"

definition get_variable_name :: "DFG \<Rightarrow> DFGVariableBlock \<Rightarrow> string" where
  "get_variable_name g variable =
     (if name variable \<in> set (all_functions_arguments g)
      then ''f'' @ str_int (fid (func variable)) @ ''_'' @ name variable
      else name variable)"

section \<open>Graph builder\<close>

text \<open>
  The constructor of a Variable Block: no display name yet, coefficient 0, no parents
  and no children.
\<close>

definition new_DFGVariableBlock ::
  "string \<Rightarrow> func \<Rightarrow> bool \<Rightarrow> bool \<Rightarrow> DFGVariableBlock" where
  "new_DFGVariableBlock n f is_arg is_ret =
     \<lparr> name = n, func = f, is_function_argument = is_arg,
       is_function_return_value = is_ret, graph_representation_name = [],
       tainting_coefficient = 0, parents_blocks = [], children_blocks = [] \<rparr>"

definition create_block :: "DFG \<Rightarrow> variable \<Rightarrow> func \<Rightarrow> DFGVariableBlock" where
  "create_block g v f =
     (let new_block = new_DFGVariableBlock (v_name v) f
                        (v_is_function_argument v) (v_is_function_return_value v)
      in new_block\<lparr>graph_representation_name := get_variable_name g new_block\<rparr>)"

fun create_blocks_loop :: "DFG \<Rightarrow> variable list \<Rightarrow> DFG" where
  "create_blocks_loop g [] = g"
| "create_blocks_loop g (v # vs) =
     create_blocks_loop
       (case v_function v of
          None \<Rightarrow> g
        | Some f \<Rightarrow>
            if \<not> is_import f
            then g\<lparr>variables_blocks := variables_blocks g @ [create_block g v f]\<rparr>
            else g) vs"

definition create_blocks :: "DFG \<Rightarrow> DFG" where
  "create_blocks g = create_blocks_loop g (variables g)"

fun create_functions_calls_loop :: "DFG \<Rightarrow> variable list \<Rightarrow> DFG" where
  "create_functions_calls_loop g [] = g"
| "create_functions_calls_loop g (v # vs) =
     create_functions_calls_loop
       (case v_value v of
          None \<Rightarrow> g
        | Some (DirectExpression operation) \<Rightarrow> g
        | Some (FUNCTION_CALL callee call_number) \<Rightarrow>
            g\<lparr>functions_calls_blocks := functions_calls_blocks g @
                [\<lparr> cb_value = fname callee,
                   cb_arguments = arguments_list_explicit callee,
                   cb_return_values = arguments_list_ret callee,
                   cb_function = v_function v,
                   cb_call_number = call_number \<rparr>]\<rparr>) vs"

definition create_functions_calls :: "DFG \<Rightarrow> DFG" where
  "create_functions_calls g = create_functions_calls_loop g (variables g)"

text \<open>
  Edge construction. The blocks of \<open>variables_blocks\<close> that satisfy a condition are
  collected as addresses, in the order of the list.
\<close>

definition blocks_where ::
  "DFGVariableBlock list \<Rightarrow> (DFGVariableBlock \<Rightarrow> bool) \<Rightarrow> nat list" where
  "blocks_where bs P = filter (\<lambda>i. P (bs ! i)) [0..<length bs]"

definition is_Operand :: "element \<Rightarrow> bool" where
  "is_Operand e = (case e of Operand t p \<Rightarrow> True | NonOperand \<Rightarrow> False)"

definition operand_type :: "element \<Rightarrow> OperandType option" where
  "operand_type e = (case e of Operand t p \<Rightarrow> Some t | NonOperand \<Rightarrow> None)"

text \<open>The loop that gathers \<^verbatim>\<open>source_blocks\<close> from the variable-typed operands.\<close>

fun source_blocks ::
  "DFGVariableBlock list \<Rightarrow> variable \<Rightarrow> element list \<Rightarrow> nat list" where
  "source_blocks bs v [] = []"
| "source_blocks bs v (Operand t (Multi xs) # ps) =
     blocks_where bs (\<lambda>b. v_function v = Some (func b) \<and> Str (name b) \<in> set xs)
       @ source_blocks bs v ps"
| "source_blocks bs v (Operand t (Scalar x) # ps) =
     blocks_where bs (\<lambda>b. v_function v = Some (func b) \<and> name b = v_name v)
       @ source_blocks bs v ps"
| "source_blocks bs v (NonOperand # ps) = source_blocks bs v ps"

text \<open>The loop over \<^verbatim>\<open>source_blocks\<close>: two appends to the relational lists and one edge.\<close>

fun link_sources :: "DFG \<Rightarrow> nat \<Rightarrow> func option \<Rightarrow> nat list \<Rightarrow> DFG" where
  "link_sources g d f [] = g"
| "link_sources g d f (s # ss) =
     (let bs = variables_blocks g;
          bs1 = bs[s := (bs ! s)\<lparr>children_blocks := children_blocks (bs ! s) @ [d]\<rparr>];
          bs2 = bs1[d := (bs1 ! d)\<lparr>parents_blocks := parents_blocks (bs1 ! d) @ [s]\<rparr>]
      in link_sources
           (g\<lparr>variables_blocks := bs2,
              edges := edges g @
                [\<lparr>e_source = VariableSource s, e_destination = d, e_function = f\<rparr>]\<rparr>)
           d f ss)"

text \<open>
  The loop over the integer-typed operands. \<^verbatim>\<open>parent_constant.value[0]\<close> raises
  IndexError on an empty list.
\<close>

definition add_constant :: "DFG \<Rightarrow> variable \<Rightarrow> nat \<Rightarrow> atom \<Rightarrow> DFG" where
  "add_constant g v d x =
     g\<lparr>constants_blocks := constants_blocks g @
          [\<lparr> c_value = x, c_id = length (constants_blocks g),
             c_variable = v, c_function = v_function v \<rparr>],
       edges := edges g @
          [\<lparr> e_source = ConstantSource (length (constants_blocks g)),
             e_destination = d, e_function = v_function v \<rparr>]\<rparr>"

fun add_constants :: "DFG \<Rightarrow> variable \<Rightarrow> nat \<Rightarrow> element list \<Rightarrow> error + DFG" where
  "add_constants g v d [] = Inr g"
| "add_constants g v d (Operand t (Multi []) # ps) = Inl IndexError"
| "add_constants g v d (Operand t (Multi (x # xs)) # ps) =
     add_constants (add_constant g v d x) v d ps"
| "add_constants g v d (Operand t (Scalar x) # ps) =
     add_constants (add_constant g v d x) v d ps"
| "add_constants g v d (NonOperand # ps) = add_constants g v d ps"

text \<open>
  The body of the loop of \<^verbatim>\<open>_create_edges\<close> for one variable. Taking element 0 of the
  list of matching destination blocks raises IndexError when the list is empty.
\<close>

definition create_edges_variable :: "DFG \<Rightarrow> variable \<Rightarrow> error + DFG" where
  "create_edges_variable g v =
     (case v_value v of
        None \<Rightarrow> Inr g
      | Some (FUNCTION_CALL callee call_number) \<Rightarrow> Inr g
      | Some (DirectExpression operation) \<Rightarrow>
          (case blocks_where (variables_blocks g)
                  (\<lambda>b. v_function v = Some (func b) \<and> v_name v = name b) of
             [] \<Rightarrow> Inl IndexError
           | destination_block # _ \<Rightarrow>
               (let parents_operands = filter is_Operand operation;
                    parents_variables =
                      filter (\<lambda>e. operand_type e = Some VARIABLE) parents_operands;
                    parents_constants =
                      filter (\<lambda>e. operand_type e = Some INTEGER) parents_operands;
                    g1 = link_sources g destination_block (v_function v)
                           (source_blocks (variables_blocks g) v parents_variables)
                in add_constants g1 v destination_block parents_constants)))"

fun create_edges_loop :: "DFG \<Rightarrow> variable list \<Rightarrow> error + DFG" where
  "create_edges_loop g [] = Inr g"
| "create_edges_loop g (v # vs) =
     (case create_edges_variable g v of
        Inl e \<Rightarrow> Inl e
      | Inr g' \<Rightarrow> create_edges_loop g' vs)"

definition create_edges :: "DFG \<Rightarrow> error + DFG" where
  "create_edges g = create_edges_loop g (variables g)"

definition create_dfg :: "DFG \<Rightarrow> error + DFG" where
  "create_dfg g = create_edges (create_functions_calls (create_blocks g))"

section \<open>Reachability and the structure of the store\<close>

text \<open>
  \<open>untainted\<close> forgets the coefficients: two stores with the same \<open>untainted\<close> image
  differ in coefficients only. \<open>layer bs s k\<close> lists the ends of the walks of \<open>k\<close>
  steps along \<open>children_blocks\<close> that start at \<open>s\<close>. A store is well formed when
  every child address denotes a block of the store.
\<close>


definition untainted :: "DFGVariableBlock list \<Rightarrow> DFGVariableBlock list" where
  "untainted bs = map (\<lambda>block. block\<lparr>tainting_coefficient := 0\<rparr>) bs"

definition children_of :: "DFGVariableBlock list \<Rightarrow> nat \<Rightarrow> nat list" where
  "children_of bs p = (if p < length bs then children_blocks (bs ! p) else [])"

fun layer :: "DFGVariableBlock list \<Rightarrow> nat \<Rightarrow> nat \<Rightarrow> nat list" where
  "layer bs s 0 = [s]"
| "layer bs s (Suc k) = concat (map (children_of bs) (layer bs s k))"

definition wf_store :: "DFGVariableBlock list \<Rightarrow> bool" where
  "wf_store bs = (\<forall>b \<in> set bs. \<forall>c \<in> set (children_blocks b). c < length bs)"

lemma length_untainted [simp]: "length (untainted bs) = length bs"
  by (simp add: untainted_def)

lemma untainted_update [simp]:
  "untainted (bs[c := (bs ! c)\<lparr>tainting_coefficient := x\<rparr>]) = untainted bs"
proof (cases "c < length bs")
  case True
  then show ?thesis
    by (auto simp: untainted_def list_eq_iff_nth_eq nth_list_update)
next
  case False
  then show ?thesis by (simp add: list_update_beyond)
qed

lemma untainted_children:
  assumes "untainted bs = untainted bs0"
  shows "children_of bs = children_of bs0"
proof
  fix p
  have len: "length bs = length bs0" using assms by (metis length_untainted)
  show "children_of bs p = children_of bs0 p"
  proof (cases "p < length bs")
    case True
    have "untainted bs ! p = untainted bs0 ! p" using assms by simp
    then have "(bs ! p)\<lparr>tainting_coefficient := 0\<rparr> = (bs0 ! p)\<lparr>tainting_coefficient := 0\<rparr>"
      using True len by (simp add: untainted_def)
    then have "children_blocks ((bs ! p)\<lparr>tainting_coefficient := 0\<rparr>)
             = children_blocks ((bs0 ! p)\<lparr>tainting_coefficient := 0\<rparr>)" by simp
    then show ?thesis using True len by (simp add: children_of_def)
  next
    case False
    then show ?thesis using len by (simp add: children_of_def)
  qed
qed

lemma untainted_taint_children_loop [simp]:
  "untainted (taint_children_loop bs p cs) = untainted bs"
  by (induction cs arbitrary: bs) simp_all

lemma untainted_taint_children_blocks [simp]:
  "untainted (taint_children_blocks bs p) = untainted bs"
  by (simp add: taint_children_blocks_def)

lemma untainted_taint_loop [simp]:
  "untainted (fst (taint_loop bs t q)) = untainted bs"
  by (induction bs t q rule: taint_loop.induct) simp_all

lemma untainted_taint_variable [simp]:
  "untainted (taint_variable bs s) = untainted bs"
  by (simp add: taint_variable_def taint_variable_run_def)

lemma length_taint_variable [simp]: "length (taint_variable bs s) = length bs"
  by (metis length_untainted untainted_taint_variable)

lemma untainted_taint_arguments_loop [simp]:
  "untainted (taint_arguments_loop bs is) = untainted bs"
  by (induction "is" arbitrary: bs) simp_all

lemma layer_step:
  "p \<in> set (layer bs s k) \<Longrightarrow> c \<in> set (children_of bs p) \<Longrightarrow> c \<in> set (layer bs s (Suc k))"
  by auto

lemma layer_cong: "children_of bs = children_of bs0 \<Longrightarrow> layer bs s k = layer bs0 s k"
  by (induction k) simp_all


definition reached :: "DFGVariableBlock list \<Rightarrow> nat \<Rightarrow> nat \<Rightarrow> bool" where
  "reached bs s b = (\<exists>k. b \<in> set (layer bs s k))"

definition decayed :: "DFGVariableBlock list \<Rightarrow> nat \<Rightarrow> DFGVariableBlock list \<Rightarrow> nat \<Rightarrow> bool" where
  "decayed bs0 s bs b =
     (\<exists>k. b \<in> set (layer bs0 s k) \<and> tainting_coefficient (bs ! b) = PROPAGATION_COEFFICIENT ^ k)"

definition taint_inv ::
  "DFGVariableBlock list \<Rightarrow> nat \<Rightarrow> DFGVariableBlock list \<Rightarrow> nat list \<Rightarrow> nat list \<Rightarrow> bool" where
  "taint_inv bs0 s bs t q =
     (untainted bs = untainted bs0 \<and>
      (\<forall>b \<in> set t \<union> set q. b < length bs0 \<and> decayed bs0 s bs b) \<and>
      (\<forall>p \<in> set t. set (children_of bs0 p) \<subseteq> set t \<union> set q) \<and>
      (\<forall>b. \<not> reached bs0 s b \<longrightarrow> bs ! b = bs0 ! b))"

lemma wf_store_children:
  "wf_store bs \<Longrightarrow> c \<in> set (children_of bs p) \<Longrightarrow> c < length bs"
  by (auto simp: wf_store_def children_of_def split: if_splits)

lemma taint_children_loop_other:
  "b \<notin> set cs \<Longrightarrow> taint_children_loop bs p cs ! b = bs ! b"
  by (induction cs arbitrary: bs) simp_all

lemma taint_children_loop_decayed:
  assumes "untainted bs = untainted bs0"
      and "wf_store bs0"
      and "set cs \<subseteq> set (children_of bs0 p)"
      and "p \<in> G"
      and "\<forall>b \<in> G. decayed bs0 s bs b"
  shows "\<forall>b \<in> G \<union> set cs. decayed bs0 s (taint_children_loop bs p cs) b"
  using assms
proof (induction cs arbitrary: bs G)
  case Nil
  then show ?case by simp
next
  case (Cons c cs)
  let ?bs1 = "bs[c := (bs ! c)\<lparr>tainting_coefficient :=
                 PROPAGATION_COEFFICIENT * tainting_coefficient (bs ! p)\<rparr>]"
  have len: "length bs = length bs0" using Cons.prems(1) by (metis length_untainted)
  have c: "c \<in> set (children_of bs0 p)" using Cons.prems(3) by simp
  then have c_lt: "c < length bs" using Cons.prems(2) len by (simp add: wf_store_children)
  obtain k where k: "p \<in> set (layer bs0 s k)"
      "tainting_coefficient (bs ! p) = PROPAGATION_COEFFICIENT ^ k"
    using Cons.prems(4,5) by (auto simp: decayed_def)
  have "c \<in> set (layer bs0 s (Suc k))" using k(1) c by (rule layer_step)
  moreover have "tainting_coefficient (?bs1 ! c) = PROPAGATION_COEFFICIENT ^ Suc k"
    using c_lt k(2) by simp
  ultimately have dc: "decayed bs0 s ?bs1 c" unfolding decayed_def by blast
  have "\<forall>b \<in> insert c G. decayed bs0 s ?bs1 b"
  proof
    fix b assume b: "b \<in> insert c G"
    show "decayed bs0 s ?bs1 b"
    proof (cases "b = c")
      case True
      then show ?thesis using dc by simp
    next
      case False
      then have "?bs1 ! b = bs ! b" by simp
      moreover have "decayed bs0 s bs b" using b False Cons.prems(5) by simp
      ultimately show ?thesis by (simp add: decayed_def)
    qed
  qed
  moreover have "untainted ?bs1 = untainted bs0" using Cons.prems(1) by simp
  moreover have "set cs \<subseteq> set (children_of bs0 p)" using Cons.prems(3) by simp
  moreover have "p \<in> insert c G" using Cons.prems(4) by simp
  ultimately have "\<forall>b \<in> insert c G \<union> set cs. decayed bs0 s (taint_children_loop ?bs1 p cs) b"
    using Cons.prems(2) by (intro Cons.IH) 
  then show ?case by simp
qed

lemma taint_inv_step:
  assumes inv: "taint_inv bs0 s bs t (h # q)" and wf: "wf_store bs0"
  shows "h < length bs \<and>
         taint_inv bs0 s (taint_children_blocks bs h) (t @ [h])
           (q @ filter (\<lambda>block. block \<notin> set (t @ [h]))
                  (children_blocks (taint_children_blocks bs h ! h)))"
proof -
  let ?bs' = "taint_children_blocks bs h"
  let ?cs = "children_blocks (bs ! h)"
  have un: "untainted bs = untainted bs0" using inv by (simp add: taint_inv_def)
  have len: "length bs = length bs0" using un by (metis length_untainted)
  have h: "h < length bs" using inv len by (simp add: taint_inv_def)
  have ch: "children_of bs = children_of bs0" using un by (rule untainted_children)
  have ch': "children_of ?bs' = children_of bs0"
    by (rule untainted_children) (simp add: un)
  have cs: "?cs = children_of bs0 h" using ch h by (metis children_of_def)
  have cs': "children_blocks (?bs' ! h) = children_of bs0 h"
    using ch' h by (metis children_of_def length_taint_children_blocks)
  have dec: "\<forall>b \<in> set t \<union> set (h # q). decayed bs0 s bs b"
    using inv by (simp add: taint_inv_def)
  have dec': "\<forall>b \<in> (set t \<union> set (h # q)) \<union> set ?cs. decayed bs0 s ?bs' b"
    unfolding taint_children_blocks_def
    by (rule taint_children_loop_decayed[OF un wf _ _ dec]) (simp_all add: cs)
  have hr: "reached bs0 s h" using dec by (auto simp: decayed_def reached_def)
  have cr: "\<forall>c \<in> set ?cs. reached bs0 s c"
    using dec' by (auto simp: decayed_def reached_def)
  have lt: "\<forall>c \<in> set ?cs. c < length bs0"
    using wf cs by (auto dest: wf_store_children)
  have other: "\<forall>b. \<not> reached bs0 s b \<longrightarrow> ?bs' ! b = bs0 ! b"
  proof (intro allI impI)
    fix b assume nb: "\<not> reached bs0 s b"
    then have "b \<notin> set ?cs" using cr by blast
    then have "?bs' ! b = bs ! b"
      unfolding taint_children_blocks_def by (rule taint_children_loop_other)
    then show "?bs' ! b = bs0 ! b" using inv nb by (simp add: taint_inv_def)
  qed
  have clos: "\<forall>p \<in> set t. set (children_of bs0 p) \<subseteq> set t \<union> set (h # q)"
    using inv by (simp add: taint_inv_def)
  show ?thesis
    unfolding taint_inv_def cs'
    using h un dec' clos other lt inv cs
    by (auto simp: taint_inv_def)
qed

lemma taint_loop_inv:
  assumes "taint_inv bs0 s bs t q" and "wf_store bs0"
  shows "taint_inv bs0 s (fst (taint_loop bs t q)) (snd (taint_loop bs t q)) [] \<and>
         set t \<union> set q \<subseteq> set (snd (taint_loop bs t q))"
  using assms
proof (induction bs t q rule: taint_loop.induct)
  case (1 bs t)
  then show ?case by simp
next
  case (2 bs t h q)
  from taint_inv_step[OF "2.prems"] have h: "h < length bs"
    and step: "taint_inv bs0 s (taint_children_blocks bs h) (t @ [h])
           (q @ filter (\<lambda>block. block \<notin> set (t @ [h]))
                  (children_blocks (taint_children_blocks bs h ! h)))"
    by simp_all
  from "2.IH"[OF h step "2.prems"(2)] h show ?case by auto
qed


lemma taint_inv_init:
  assumes "s < length bs"
  shows "taint_inv bs s (bs[s := (bs ! s)\<lparr>tainting_coefficient := 1\<rparr>]) [] [s]"
proof -
  have "decayed bs s (bs[s := (bs ! s)\<lparr>tainting_coefficient := 1\<rparr>]) s"
    unfolding decayed_def using assms by (intro exI[of _ 0]) simp
  moreover have "\<forall>b. \<not> reached bs s b \<longrightarrow> bs[s := (bs ! s)\<lparr>tainting_coefficient := 1\<rparr>] ! b = bs ! b"
  proof (intro allI impI)
    fix b assume "\<not> reached bs s b"
    then have "b \<notin> set (layer bs s 0)" unfolding reached_def by blast
    then show "bs[s := (bs ! s)\<lparr>tainting_coefficient := 1\<rparr>] ! b = bs ! b" by simp
  qed
  ultimately show ?thesis using assms by (simp add: taint_inv_def)
qed

lemma closed_reached:
  assumes "s \<in> T" and "\<forall>p \<in> T. set (children_of bs p) \<subseteq> T"
  shows "b \<in> set (layer bs s k) \<Longrightarrow> b \<in> T"
proof (induction k arbitrary: b)
  case 0
  then show ?case using assms(1) by simp
next
  case (Suc k)
  then obtain p where "p \<in> set (layer bs s k)" "b \<in> set (children_of bs p)" by auto
  then show ?case using Suc.IH assms(2) by blast
qed

lemma taint_variable_run_spec:
  assumes wf: "wf_store bs" and s: "s < length bs"
  shows "set (snd (taint_variable_run bs s)) = {b. reached bs s b}"
    and "\<forall>b. reached bs s b \<longrightarrow> b < length bs \<and> decayed bs s (taint_variable bs s) b"
    and "\<forall>b. \<not> reached bs s b \<longrightarrow> taint_variable bs s ! b = bs ! b"
proof -
  let ?r = "taint_variable_run bs s"
  have inv: "taint_inv bs s (fst ?r) (snd ?r) []" and src: "s \<in> set (snd ?r)"
    using taint_loop_inv[OF taint_inv_init[OF s] wf]
    by (simp_all add: taint_variable_run_def)
  have sub: "\<forall>b \<in> set (snd ?r). b < length bs \<and> decayed bs s (fst ?r) b"
    using inv by (simp add: taint_inv_def)
  have clos: "\<forall>p \<in> set (snd ?r). set (children_of bs p) \<subseteq> set (snd ?r)"
    using inv by (simp add: taint_inv_def)
  have sup: "\<And>b. reached bs s b \<Longrightarrow> b \<in> set (snd ?r)"
    unfolding reached_def using closed_reached[OF src clos] by blast
  show "set (snd ?r) = {b. reached bs s b}"
    using sub sup by (auto simp: decayed_def reached_def)
  show "\<forall>b. reached bs s b \<longrightarrow> b < length bs \<and> decayed bs s (taint_variable bs s) b"
    using sub sup by (simp add: taint_variable_def)
  show "\<forall>b. \<not> reached bs s b \<longrightarrow> taint_variable bs s ! b = bs ! b"
    using inv by (simp add: taint_inv_def taint_variable_def)
qed

lemma taint_children_blocks_child:
  assumes "p \<notin> set (children_blocks (bs ! p))" and "c \<in> set (children_blocks (bs ! p))"
      and "c < length bs"
  shows "tainting_coefficient (taint_children_blocks bs p ! c)
           = PROPAGATION_COEFFICIENT * tainting_coefficient (bs ! p)"
proof -
  have "p \<notin> set cs \<Longrightarrow> c \<in> set cs \<Longrightarrow> c < length bs \<Longrightarrow>
        tainting_coefficient (taint_children_loop bs p cs ! c)
           = PROPAGATION_COEFFICIENT * tainting_coefficient (bs ! p)" for cs
  proof (induction cs arbitrary: bs)
    case Nil
    then show ?case by simp
  next
    case (Cons a cs)
    let ?bs1 = "bs[a := (bs ! a)\<lparr>tainting_coefficient :=
                 PROPAGATION_COEFFICIENT * tainting_coefficient (bs ! p)\<rparr>]"
    have p: "?bs1 ! p = bs ! p" using Cons.prems(1) by simp
    show ?case
    proof (cases "c \<in> set cs")
      case True
      then show ?thesis using Cons.IH[of ?bs1] Cons.prems p by simp
    next
      case False
      then have "a = c" using Cons.prems(2) by simp
      then show ?thesis using False Cons.prems(3) by (simp add: taint_children_loop_other)
    qed
  qed
  then show ?thesis using assms by (simp add: taint_children_blocks_def)
qed

lemma chain_taint:
  assumes "variables_blocks g = [a, b, c]"
      and "children_blocks a = [1]" "children_blocks b = [2]" "children_blocks c = []"
      and "is_function_argument a" "\<not> is_function_argument b" "\<not> is_function_argument c"
  shows "map tainting_coefficient (variables_blocks (taint_functions_arguments g))
           = [1, 7 / 10, 49 / 100]"
proof -
  have upt: "[0..<length [a, b, c]] = [0, 1, 2]" by (simp add: upt_rec)
  show ?thesis
    using assms
    by (simp add: taint_functions_arguments_def upt taint_variable_def taint_variable_run_def
        taint_children_blocks_def PROPAGATION_COEFFICIENT_def)
qed

section \<open>Concrete graphs\<close>

text \<open>A chain A \<rightarrow> B \<rightarrow> C and a diamond A \<rightarrow> B, A \<rightarrow> C, B \<rightarrow> D, C \<rightarrow> D.\<close>

definition example_function :: func where
  "example_function =
     \<lparr> fid = 1, fname = ''main'', is_import = False, arguments_list = [''a''],
       arguments_list_explicit = [''a''], arguments_list_ret = [] \<rparr>"

definition example_block :: "string \<Rightarrow> bool \<Rightarrow> nat list \<Rightarrow> nat list \<Rightarrow> DFGVariableBlock" where
  "example_block n is_arg ps cs =
     \<lparr> name = n, func = example_function, is_function_argument = is_arg,
       is_function_return_value = False, graph_representation_name = n,
       tainting_coefficient = 0, parents_blocks = ps, children_blocks = cs \<rparr>"

definition chain_blocks :: "DFGVariableBlock list" where
  "chain_blocks =
     [example_block ''A'' True [] [1],
      example_block ''B'' False [0] [2],
      example_block ''C'' False [1] []]"

definition diamond_blocks :: "DFGVariableBlock list" where
  "diamond_blocks =
     [example_block ''A'' True [] [1, 2],
      example_block ''B'' False [0] [3],
      example_block ''C'' False [0] [3],
      example_block ''D'' False [1, 2] []]"

definition dfg_of_blocks :: "DFGVariableBlock list \<Rightarrow> DFG" where
  "dfg_of_blocks bs =
     \<lparr> variables = [], variables_blocks = bs, constants_blocks = [],
       functions_calls_blocks = [], edges = [], all_functions_arguments = [''a''] \<rparr>"

text \<open>
  A store has a single depth from \<open>s\<close> when no block lies in two layers: all walks
  from \<open>s\<close> to a block have the same length. Chains, trees and layered graphs such as
  the diamond are of this kind; a graph with a cycle through a reached block is not.
\<close>

definition single_depth :: "DFGVariableBlock list \<Rightarrow> nat \<Rightarrow> bool" where
  "single_depth bs s = (\<forall>i j b. b \<in> set (layer bs s i) \<and> b \<in> set (layer bs s j) \<longrightarrow> i = j)"

lemma layer_lt:
  assumes "wf_store bs" and "s < length bs"
  shows "b \<in> set (layer bs s k) \<Longrightarrow> b < length bs"
proof (induction k arbitrary: b)
  case 0
  then show ?case using assms(2) by simp
next
  case (Suc k)
  then obtain p where "b \<in> set (children_of bs p)" by auto
  then show ?case using assms(1) by (rule wf_store_children[rotated])
qed

lemma concat_layers_mem:
  "b \<in> set (concat (map (layer bs s) [0..<k])) \<Longrightarrow> \<exists>i<k. b \<in> set (layer bs s i)"
  by auto

lemma layer_Suc_split:
  "layer bs s k = d @ r \<Longrightarrow>
   layer bs s (Suc k) = concat (map (children_of bs) d) @ concat (map (children_of bs) r)"
  by simp

lemma bfs_order:
  assumes wf: "wf_store bs0" and s: "s < length bs0" and U: "single_depth bs0 s"
  shows "untainted bs = untainted bs0 \<Longrightarrow> layer bs0 s k = d @ r \<Longrightarrow>
         t = concat (map (layer bs0 s) [0..<k]) @ d \<Longrightarrow>
         q = r @ concat (map (children_of bs0) d) \<Longrightarrow>
         \<exists>m. layer bs0 s m = [] \<and> snd (taint_loop bs t q) = concat (map (layer bs0 s) [0..<m])"
proof (induction bs t q arbitrary: k d r rule: taint_loop.induct)
  case (1 bs t)
  from "1.prems"(4) have r: "r = []" and c: "concat (map (children_of bs0) d) = []" by simp_all
  have "layer bs0 s (Suc k) = []" using "1.prems"(2) r c by simp
  moreover have "t = concat (map (layer bs0 s) [0..<Suc k])" using "1.prems"(2,3) r by simp
  ultimately show ?case by (metis snd_conv taint_loop.simps(1))
next
  case (2 bs t h q)
  have len: "length bs = length bs0" using "2.prems"(1) by (metis length_untainted)
  obtain k' d' r' where L: "layer bs0 s k' = d' @ h # r'"
      and T: "t = concat (map (layer bs0 s) [0..<k']) @ d'"
      and Q: "q = r' @ concat (map (children_of bs0) d')"
  proof (cases r)
    case Nil
    then have d: "layer bs0 s k = d" and q: "h # q = layer bs0 s (Suc k)"
      using "2.prems"(2,4) by simp_all
    show ?thesis
    proof (rule that[of "Suc k" "[]" q])
      show "layer bs0 s (Suc k) = [] @ h # q" using q by simp
      show "t = concat (map (layer bs0 s) [0..<Suc k]) @ []" using "2.prems"(3) d by simp
      show "q = q @ concat (map (children_of bs0) [])" by simp
    qed
  next
    case (Cons a r'')
    then have "a = h" and "q = r'' @ concat (map (children_of bs0) d)"
      using "2.prems"(4) by simp_all
    then show ?thesis using that[of k d r''] "2.prems"(2,3) Cons by simp
  qed
  have hk: "h \<in> set (layer bs0 s k')" using L by simp
  then have h: "h < length bs" using layer_lt[OF wf s] len by simp
  let ?bs' = "taint_children_blocks bs h"
  have un': "untainted ?bs' = untainted bs0" using "2.prems"(1) by simp
  have "children_of ?bs' = children_of bs0" using un' by (rule untainted_children)
  then have ch: "children_blocks (?bs' ! h) = children_of bs0 h"
    using h by (metis children_of_def length_taint_children_blocks)
  have fresh: "c \<notin> set (t @ [h])" if c: "c \<in> set (children_of bs0 h)" for c
  proof
    assume m: "c \<in> set (t @ [h])"
    have c1: "c \<in> set (layer bs0 s (Suc k'))" using hk c by (rule layer_step)
    have "\<exists>i\<le>k'. c \<in> set (layer bs0 s i)"
    proof (cases "c \<in> set (concat (map (layer bs0 s) [0..<k']))")
      case True
      then obtain i where "i < k'" "c \<in> set (layer bs0 s i)"
        using concat_layers_mem by blast
      then show ?thesis by (metis less_imp_le)
    next
      case False
      then have "c \<in> set (layer bs0 s k')" using m T L by auto
      then show ?thesis by blast
    qed
    then obtain i where i: "i \<le> k'" "c \<in> set (layer bs0 s i)" by blast
    then have "i = Suc k'" using U c1 unfolding single_depth_def by blast
    then show False using i(1) by simp
  qed
  then have filt: "filter (\<lambda>block. block \<notin> set (t @ [h])) (children_blocks (?bs' ! h))
                 = children_of bs0 h"
    unfolding ch by (simp add: filter_id_conv)
  have step: "snd (taint_loop bs t (h # q))
      = snd (taint_loop ?bs' (t @ [h]) (q @ children_of bs0 h))"
    using h filt by simp
  have "\<exists>m. layer bs0 s m = [] \<and>
         snd (taint_loop ?bs' (t @ [h])
                (q @ filter (\<lambda>block. block \<notin> set (t @ [h])) (children_blocks (?bs' ! h))))
           = concat (map (layer bs0 s) [0..<m])"
  proof (rule "2.IH"[OF h un', of k' "d' @ [h]" r'])
    show "layer bs0 s k' = (d' @ [h]) @ r'" using L by simp
    show "t @ [h] = concat (map (layer bs0 s) [0..<k']) @ d' @ [h]" using T by simp
    show "q @ filter (\<lambda>block. block \<notin> set (t @ [h])) (children_blocks (?bs' ! h))
        = r' @ concat (map (children_of bs0) (d' @ [h]))"
      unfolding filt using Q by simp
  qed
  then show ?case using step filt by simp
qed

text \<open>
  Further graphs: the chain stored in reverse order, a block that is its own child, and
  two blocks that are each other's child.
\<close>

definition reversed_chain_blocks :: "DFGVariableBlock list" where
  "reversed_chain_blocks =
     [example_block ''C'' False [1] [],
      example_block ''B'' False [2] [0],
      example_block ''A'' True [] [1]]"

definition self_loop_blocks :: "DFGVariableBlock list" where
  "self_loop_blocks = [example_block ''A'' True [0] [0]]"

definition two_cycle_blocks :: "DFGVariableBlock list" where
  "two_cycle_blocks =
     [example_block ''A'' True [1] [1],
      example_block ''B'' False [0] [0]]"

lemma untainted_is_function_argument:
  assumes "untainted bs' = untainted bs" and "i < length bs"
  shows "is_function_argument (bs' ! i) = is_function_argument (bs ! i)"
proof -
  have len: "length bs' = length bs" using assms(1) by (metis length_untainted)
  have "untainted bs' ! i = untainted bs ! i" using assms(1) by simp
  then have "(bs' ! i)\<lparr>tainting_coefficient := 0\<rparr> = (bs ! i)\<lparr>tainting_coefficient := 0\<rparr>"
    using assms(2) len by (simp add: untainted_def)
  then have "is_function_argument ((bs' ! i)\<lparr>tainting_coefficient := 0\<rparr>)
           = is_function_argument ((bs ! i)\<lparr>tainting_coefficient := 0\<rparr>)" by simp
  then show ?thesis by simp
qed

lemma taint_arguments_loop_append:
  "taint_arguments_loop bs (xs @ ys) = taint_arguments_loop (taint_arguments_loop bs xs) ys"
  by (induction xs arbitrary: bs) simp_all

lemma taint_arguments_loop_none:
  "\<forall>i \<in> set xs. \<not> is_function_argument (bs ! i) \<Longrightarrow> taint_arguments_loop bs xs = bs"
  by (induction xs) simp_all

lemma taint_arguments_loop_single:
  assumes a: "a < length bs" and arg: "is_function_argument (bs ! a)"
      and only: "\<forall>i<length bs. is_function_argument (bs ! i) \<longrightarrow> i = a"
  shows "taint_arguments_loop bs [0..<length bs] = taint_variable bs a"
proof -
  have split: "[0..<length bs] = [0..<a] @ a # [Suc a..<length bs]"
  proof -
    have "[0..<a + (length bs - a)] = [0..<a] @ [a..<a + (length bs - a)]"
      by (rule upt_add_eq_append) simp
    then have "[0..<length bs] = [0..<a] @ [a..<length bs]" using a by simp
    then show ?thesis using a by (simp add: upt_conv_Cons)
  qed
  have before: "taint_arguments_loop bs [0..<a] = bs"
  proof (rule taint_arguments_loop_none, rule ballI)
    fix i assume "i \<in> set [0..<a]"
    then have "i < length bs" "i \<noteq> a" using a by auto
    then show "\<not> is_function_argument (bs ! i)" using only by blast
  qed
  have after: "taint_arguments_loop (taint_variable bs a) [Suc a..<length bs] = taint_variable bs a"
  proof (rule taint_arguments_loop_none, rule ballI)
    fix i assume "i \<in> set [Suc a..<length bs]"
    then have i: "i < length bs" "i \<noteq> a" by auto
    have "is_function_argument (taint_variable bs a ! i) = is_function_argument (bs ! i)"
      by (rule untainted_is_function_argument) (simp_all add: i)
    then show "\<not> is_function_argument (taint_variable bs a ! i)" using only i by blast
  qed
  show ?thesis
    unfolding split taint_arguments_loop_append before
    using arg after by simp
qed

lemma chain_layers:
  assumes "a < length bs" "b < length bs" "c < length bs"
      and "children_blocks (bs ! a) = [b]" "children_blocks (bs ! b) = [c]"
          "children_blocks (bs ! c) = []"
  shows "layer bs a k = (if k = 0 then [a] else if k = 1 then [b] else if k = 2 then [c] else [])"
proof (induction k)
  case 0
  then show ?case by simp
next
  case (Suc k)
  have ch: "children_of bs a = [b]" "children_of bs b = [c]" "children_of bs c = []"
    using assms by (simp_all add: children_of_def)
  show ?case unfolding layer.simps(2) Suc.IH by (auto simp: ch)
qed

lemma chain_single_depth:
  assumes "a < length bs" "b < length bs" "c < length bs" "distinct [a, b, c]"
      and "children_blocks (bs ! a) = [b]" "children_blocks (bs ! b) = [c]"
          "children_blocks (bs ! c) = []"
  shows "single_depth bs a"
  unfolding single_depth_def chain_layers[OF assms(1,2,3,5,6,7)]
  using assms(4) by (auto split: if_splits)

lemma diamond_layers:
  "layer diamond_blocks 0 k =
     (if k = 0 then [0] else if k = 1 then [1, 2] else if k = 2 then [3, 3] else [])"
proof (induction k)
  case 0
  then show ?case by simp
next
  case (Suc k)
  have ch: "children_of diamond_blocks 0 = [1, 2]" "children_of diamond_blocks (Suc 0) = [3]"
      "children_of diamond_blocks 2 = [3]" "children_of diamond_blocks 3 = []"
    by (simp_all add: children_of_def diamond_blocks_def example_block_def)
  show ?case unfolding layer.simps(2) Suc.IH by (auto simp: ch)
qed

lemma diamond_single_depth: "single_depth diamond_blocks 0"
  unfolding single_depth_def diamond_layers by (auto split: if_splits)

section \<open>Taint propagation\<close>




text \<open>
  Claim C2. The traversal always terminates (\<open>taint_loop\<close> is a total function) and
  visits exactly the blocks reached from the source (\<open>taint_variable_run_spec\<close>), but
  not each of them once: the membership test looks at the blocks already processed, not
  at the queue. In the diamond, D is queued by B and again by C, and is processed and
  appended to \<^verbatim>\<open>tainted_blocks\<close> twice.
\<close>

theorem taint_variable_revisits_diamond:
  "snd (taint_variable_run diamond_blocks 0) = [0, 1, 2, 3, 3]"
  by (simp add: taint_variable_run_def diamond_blocks_def example_block_def
      taint_children_blocks_def)

section \<open>Sequences of taint operations\<close>

text \<open>The taint operations of the graph, and a run of any list of them.\<close>

datatype taint_operation =
    TaintFunctionsArguments
  | TaintVariable nat
  | TaintChildrenBlocks nat
  | CleanTainting

fun apply_taint_operation :: "DFG \<Rightarrow> taint_operation \<Rightarrow> DFG" where
  "apply_taint_operation g TaintFunctionsArguments = taint_functions_arguments g"
| "apply_taint_operation g (TaintVariable source_block) = taint_variable_dfg g source_block"
| "apply_taint_operation g (TaintChildrenBlocks parent_block) =
     taint_children_blocks_dfg g parent_block"
| "apply_taint_operation g CleanTainting = clean_tainting g"

fun run_taint_operations :: "DFG \<Rightarrow> taint_operation list \<Rightarrow> DFG" where
  "run_taint_operations g [] = g"
| "run_taint_operations g (operation # operations) =
     run_taint_operations (apply_taint_operation g operation) operations"

lemma untainted_idem [simp]: "untainted (untainted bs) = untainted bs"
  by (simp add: untainted_def)

lemma clean_tainting_untainted:
  "clean_tainting g = g\<lparr>variables_blocks := untainted (variables_blocks g)\<rparr>"
  by (simp add: clean_tainting_def untainted_def)

lemma apply_taint_operation_frame:
  "\<exists>bs. apply_taint_operation g operation = g\<lparr>variables_blocks := bs\<rparr>
        \<and> untainted bs = untainted (variables_blocks g)"
  by (cases operation)
     (auto simp: taint_functions_arguments_def taint_variable_dfg_def
        taint_children_blocks_dfg_def clean_tainting_untainted)

lemma run_taint_operations_frame:
  "\<exists>bs. run_taint_operations g operations = g\<lparr>variables_blocks := bs\<rparr>
        \<and> untainted bs = untainted (variables_blocks g)"
proof (induction operations arbitrary: g)
  case Nil
  have "g = g\<lparr>variables_blocks := variables_blocks g\<rparr>" by simp
  then show ?case by (metis run_taint_operations.simps(1))
next
  case (Cons operation operations)
  obtain bs1 where 1: "apply_taint_operation g operation = g\<lparr>variables_blocks := bs1\<rparr>"
      "untainted bs1 = untainted (variables_blocks g)"
    using apply_taint_operation_frame by blast
  obtain bs2 where 2: "run_taint_operations (g\<lparr>variables_blocks := bs1\<rparr>) operations
        = g\<lparr>variables_blocks := bs1\<rparr>\<lparr>variables_blocks := bs2\<rparr>"
      "untainted bs2 = untainted (variables_blocks (g\<lparr>variables_blocks := bs1\<rparr>))"
    using Cons.IH by blast
  have "run_taint_operations g (operation # operations) = g\<lparr>variables_blocks := bs2\<rparr>"
    using 1 2 by simp
  moreover have "untainted bs2 = untainted (variables_blocks g)" using 1 2 by simp
  ultimately show ?case by blast
qed

lemma untainted_fields:
  assumes "untainted bs' = untainted bs"
  shows "map parents_blocks bs' = map parents_blocks bs"
    and "map children_blocks bs' = map children_blocks bs"
    and "map name bs' = map name bs"
    and "map func bs' = map func bs"
    and "map is_function_argument bs' = map is_function_argument bs"
    and "map is_function_return_value bs' = map is_function_return_value bs"
    and "map graph_representation_name bs' = map graph_representation_name bs"
proof -
  have f: "map (f \<circ> (\<lambda>block. block\<lparr>tainting_coefficient := 0\<rparr>)) bs'
         = map (f \<circ> (\<lambda>block. block\<lparr>tainting_coefficient := 0\<rparr>)) bs" for f :: "DFGVariableBlock \<Rightarrow> 'a"
    using arg_cong[OF assms, of "map f"] by (simp add: untainted_def)
  show "map parents_blocks bs' = map parents_blocks bs" using f[of parents_blocks] by (simp add: comp_def)
  show "map children_blocks bs' = map children_blocks bs" using f[of children_blocks] by (simp add: comp_def)
  show "map name bs' = map name bs" using f[of name] by (simp add: comp_def)
  show "map func bs' = map func bs" using f[of func] by (simp add: comp_def)
  show "map is_function_argument bs' = map is_function_argument bs"
    using f[of is_function_argument] by (simp add: comp_def)
  show "map is_function_return_value bs' = map is_function_return_value bs"
    using f[of is_function_return_value] by (simp add: comp_def)
  show "map graph_representation_name bs' = map graph_representation_name bs"
    using f[of graph_representation_name] by (simp add: comp_def)
qed

text \<open>
  Claim C9. The taint operations write \<open>tainting_coefficient\<close> only: after any sequence
  of \<^verbatim>\<open>_taint_functions_arguments\<close>, \<^verbatim>\<open>_taint_variable\<close>, \<^verbatim>\<open>taint_children_blocks\<close> and
  \<^verbatim>\<open>_clean_tainting\<close>, the lists of constant blocks, call blocks and edges are the same,
  \<open>variables_blocks\<close> has the same length, every block has the same
  \<open>parents_blocks\<close> and \<open>children_blocks\<close>, and the blocks agree with the old ones
  once the coefficient is masked.
\<close>

theorem taint_operations_frame:
  "variables (run_taint_operations g operations) = variables g \<and>
   constants_blocks (run_taint_operations g operations) = constants_blocks g \<and>
   functions_calls_blocks (run_taint_operations g operations) = functions_calls_blocks g \<and>
   edges (run_taint_operations g operations) = edges g \<and>
   all_functions_arguments (run_taint_operations g operations) = all_functions_arguments g \<and>
   length (variables_blocks (run_taint_operations g operations)) = length (variables_blocks g) \<and>
   map parents_blocks (variables_blocks (run_taint_operations g operations))
     = map parents_blocks (variables_blocks g) \<and>
   map children_blocks (variables_blocks (run_taint_operations g operations))
     = map children_blocks (variables_blocks g) \<and>
   map (\<lambda>block. block\<lparr>tainting_coefficient := 0\<rparr>)
       (variables_blocks (run_taint_operations g operations))
     = map (\<lambda>block. block\<lparr>tainting_coefficient := 0\<rparr>) (variables_blocks g)"
proof -
  obtain bs where bs: "run_taint_operations g operations = g\<lparr>variables_blocks := bs\<rparr>"
      "untainted bs = untainted (variables_blocks g)"
    using run_taint_operations_frame by blast
  have "length bs = length (variables_blocks g)" using bs(2) by (metis length_untainted)
  then show ?thesis
    using bs untainted_fields(1,2)[OF bs(2)] by (simp add: untainted_def)
qed

theorem taint_operations_frame_witness:
  "edges (run_taint_operations (dfg_of_blocks diamond_blocks)
            [TaintFunctionsArguments, TaintChildrenBlocks 1, CleanTainting, TaintVariable 2]) = [] \<and>
   map children_blocks
     (variables_blocks (run_taint_operations (dfg_of_blocks diamond_blocks)
            [TaintFunctionsArguments, TaintChildrenBlocks 1, CleanTainting, TaintVariable 2]))
     = [[1, 2], [3], [3], []] \<and>
   map parents_blocks
     (variables_blocks (run_taint_operations (dfg_of_blocks diamond_blocks)
            [TaintFunctionsArguments, TaintChildrenBlocks 1, CleanTainting, TaintVariable 2]))
     = [[], [0], [0], [1, 2]]"
  using taint_operations_frame[of "dfg_of_blocks diamond_blocks"
      "[TaintFunctionsArguments, TaintChildrenBlocks 1, CleanTainting, TaintVariable 2]"]
  by (simp add: dfg_of_blocks_def diamond_blocks_def example_block_def)

text \<open>
  Claim C8. \<^verbatim>\<open>_clean_tainting\<close> sets every coefficient to 0. After any sequence of
  taint operations one call gives the same graph as a call on the original graph, with
  all coefficients 0; a second call changes nothing; and \<^verbatim>\<open>_taint_functions_arguments\<close>
  after \<^verbatim>\<open>_clean_tainting\<close> gives the same result whatever was run before.
\<close>

theorem clean_tainting_resets:
  "map tainting_coefficient (variables_blocks (clean_tainting g))
     = replicate (length (variables_blocks g)) 0 \<and>
   clean_tainting (run_taint_operations g operations) = clean_tainting g \<and>
   map tainting_coefficient (variables_blocks (clean_tainting (run_taint_operations g operations)))
     = replicate (length (variables_blocks g)) 0 \<and>
   clean_tainting (clean_tainting g) = clean_tainting g \<and>
   taint_functions_arguments (clean_tainting (run_taint_operations g operations))
     = taint_functions_arguments (clean_tainting g)"
proof -
  have zero: "map tainting_coefficient (variables_blocks (clean_tainting g))
     = replicate (length (variables_blocks g)) 0" for g
    by (simp add: clean_tainting_def comp_def map_replicate_const)
  obtain bs where bs: "run_taint_operations g operations = g\<lparr>variables_blocks := bs\<rparr>"
      "untainted bs = untainted (variables_blocks g)"
    using run_taint_operations_frame by blast
  have undo: "clean_tainting (run_taint_operations g operations) = clean_tainting g"
    using bs by (simp add: clean_tainting_untainted)
  have idem: "clean_tainting (clean_tainting g) = clean_tainting g"
    by (simp add: clean_tainting_untainted)
  show ?thesis using zero[of g] undo idem by simp
qed


theorem clean_tainting_resets_witness:
  "map tainting_coefficient
     (variables_blocks (clean_tainting (run_taint_operations (dfg_of_blocks chain_blocks)
         [TaintFunctionsArguments, TaintVariable 1]))) = [0, 0, 0] \<and>
   map tainting_coefficient
     (variables_blocks (taint_functions_arguments (clean_tainting
        (run_taint_operations (dfg_of_blocks chain_blocks)
           [TaintFunctionsArguments, TaintVariable 1])))) = [1, 7 / 10, 49 / 100]"
proof -
  note inst = clean_tainting_resets[of "dfg_of_blocks chain_blocks"
      "[TaintFunctionsArguments, TaintVariable 1]"]
  have "map tainting_coefficient
     (variables_blocks (clean_tainting (run_taint_operations (dfg_of_blocks chain_blocks)
         [TaintFunctionsArguments, TaintVariable 1]))) = [0, 0, 0]"
    using inst by (simp add: dfg_of_blocks_def chain_blocks_def numeral_3_eq_3)
  moreover have "taint_functions_arguments (clean_tainting
        (run_taint_operations (dfg_of_blocks chain_blocks)
           [TaintFunctionsArguments, TaintVariable 1]))
      = taint_functions_arguments (clean_tainting (dfg_of_blocks chain_blocks))"
    using inst by simp
  moreover have "map tainting_coefficient (variables_blocks
      (taint_functions_arguments (clean_tainting (dfg_of_blocks chain_blocks))))
      = [1, 7 / 10, 49 / 100]"
    by (rule chain_taint[where a = "chain_blocks ! 0" and b = "chain_blocks ! 1"
          and c = "chain_blocks ! 2"])
       (simp_all add: clean_tainting_def dfg_of_blocks_def chain_blocks_def example_block_def)
  ultimately show ?thesis by simp
qed

section \<open>Graph construction\<close>

text \<open>
  A Variable gets a block when its function is not \<^verbatim>\<open>None\<close> and not an import.
\<close>

definition has_block :: "variable \<Rightarrow> bool" where
  "has_block v = (case v_function v of None \<Rightarrow> False | Some f \<Rightarrow> \<not> is_import f)"

text \<open>The blocks that \<^verbatim>\<open>_create_blocks\<close> appends for a list of variables.\<close>

definition new_blocks :: "DFG \<Rightarrow> variable list \<Rightarrow> DFGVariableBlock list" where
  "new_blocks g vs = map (\<lambda>v. create_block g v (the (v_function v))) (filter has_block vs)"

lemma create_block_cong:
  "all_functions_arguments g' = all_functions_arguments g \<Longrightarrow> create_block g' v f = create_block g v f"
  by (simp add: create_block_def get_variable_name_def)

lemma new_blocks_cong:
  assumes "all_functions_arguments g' = all_functions_arguments g"
  shows "new_blocks g' vs = new_blocks g vs"
  unfolding new_blocks_def
  by (rule map_cong[OF refl]) (rule create_block_cong[OF assms])

lemma new_blocks_Cons: "new_blocks g (v # vs) = new_blocks g [v] @ new_blocks g vs"
  by (simp add: new_blocks_def)

lemma create_blocks_step:
  "(case v_function v of None \<Rightarrow> g
    | Some f \<Rightarrow> if \<not> is_import f
        then g\<lparr>variables_blocks := variables_blocks g @ [create_block g v f]\<rparr>
        else g) = g\<lparr>variables_blocks := variables_blocks g @ new_blocks g [v]\<rparr>"
  by (cases "v_function v") (simp_all add: has_block_def new_blocks_def)

lemma create_blocks_loop_spec:
  "create_blocks_loop g vs = g\<lparr>variables_blocks := variables_blocks g @ new_blocks g vs\<rparr>"
proof (induction vs arbitrary: g)
  case Nil
  then show ?case by (simp add: new_blocks_def)
next
  case (Cons v vs)
  let ?g1 = "g\<lparr>variables_blocks := variables_blocks g @ new_blocks g [v]\<rparr>"
  have "create_blocks_loop g (v # vs) = create_blocks_loop ?g1 vs"
    by (simp only: create_blocks_loop.simps create_blocks_step)
  also have "\<dots> = ?g1\<lparr>variables_blocks := variables_blocks ?g1 @ new_blocks ?g1 vs\<rparr>"
    by (rule Cons.IH)
  also have "new_blocks ?g1 vs = new_blocks g vs"
    by (rule new_blocks_cong) simp
  finally show ?case by (simp add: new_blocks_Cons[of g v vs])
qed

text \<open>Functions and variables for concrete inputs.\<close>

definition local_function :: "int \<Rightarrow> string list \<Rightarrow> func" where
  "local_function i args =
     \<lparr> fid = i, fname = ''fn'', is_import = False, arguments_list = args,
       arguments_list_explicit = args, arguments_list_ret = [] \<rparr>"

definition import_function :: "int \<Rightarrow> string list \<Rightarrow> func" where
  "import_function i args =
     \<lparr> fid = i, fname = ''ext'', is_import = True, arguments_list = args,
       arguments_list_explicit = args, arguments_list_ret = [] \<rparr>"

definition plain_variable :: "string \<Rightarrow> func option \<Rightarrow> bool \<Rightarrow> variable" where
  "plain_variable n f is_arg =
     \<lparr> v_name = n, v_function = f, v_is_function_argument = is_arg,
       v_is_function_return_value = False, v_value = None \<rparr>"

definition mixed_variables :: "variable list" where
  "mixed_variables =
     [plain_variable ''x'' (Some (local_function 1 [''x''])) True,
      plain_variable ''y'' None False,
      plain_variable ''z'' (Some (import_function 2 [''z''])) True,
      plain_variable ''w'' (Some (local_function 1 [''x''])) False]"

text \<open>
  Claim C5. \<^verbatim>\<open>_create_blocks\<close> appends, in the order of the input list, one Variable
  Block for every Variable whose function is not \<^verbatim>\<open>None\<close> and not an import, built from
  that Variable (name, function, the two flags, the display name of the name resolver,
  coefficient 0, no parents and no children), and nothing for the other Variables; it
  changes no other field of the graph. From a fresh graph the number of blocks is the
  number of such Variables.
\<close>

theorem create_blocks_one_per_variable:
  "variables_blocks (create_blocks g)
     = variables_blocks g @
       map (\<lambda>v. create_block g v (the (v_function v))) (filter has_block (variables g))
   \<and> (create_blocks g)\<lparr>variables_blocks := variables_blocks g\<rparr> = g
   \<and> variables_blocks (create_blocks (DFG_init vs))
     = map (\<lambda>v. \<lparr> name = v_name v, func = the (v_function v),
                  is_function_argument = v_is_function_argument v,
                  is_function_return_value = v_is_function_return_value v,
                  graph_representation_name =
                    (if v_name v \<in> set (all_functions_arguments (DFG_init vs))
                     then ''f'' @ str_int (fid (the (v_function v))) @ ''_'' @ v_name v
                     else v_name v),
                  tainting_coefficient = 0, parents_blocks = [], children_blocks = [] \<rparr>)
         (filter has_block vs)
   \<and> length (variables_blocks (create_blocks (DFG_init vs))) = length (filter has_block vs)
   \<and> length (variables_blocks (create_blocks (DFG_init vs)))
       = length (filter (\<lambda>v. v_function v \<noteq> None \<and> \<not> is_import (the (v_function v))) vs)"
proof -
  have spec: "create_blocks g = g\<lparr>variables_blocks := variables_blocks g @ new_blocks g (variables g)\<rparr>"
    for g
    by (simp add: create_blocks_def create_blocks_loop_spec)
  have 1: "variables_blocks (create_blocks g)
     = variables_blocks g @
       map (\<lambda>v. create_block g v (the (v_function v))) (filter has_block (variables g))"
    by (simp add: spec new_blocks_def)
  have 2: "(create_blocks g)\<lparr>variables_blocks := variables_blocks g\<rparr> = g"
    by (simp add: spec)
  have 3: "variables_blocks (create_blocks (DFG_init vs))
     = map (\<lambda>v. \<lparr> name = v_name v, func = the (v_function v),
                  is_function_argument = v_is_function_argument v,
                  is_function_return_value = v_is_function_return_value v,
                  graph_representation_name =
                    (if v_name v \<in> set (all_functions_arguments (DFG_init vs))
                     then ''f'' @ str_int (fid (the (v_function v))) @ ''_'' @ v_name v
                     else v_name v),
                  tainting_coefficient = 0, parents_blocks = [], children_blocks = [] \<rparr>)
         (filter has_block vs)"
    by (simp add: spec new_blocks_def DFG_init_def create_block_def get_variable_name_def
        new_DFGVariableBlock_def)
  have 4: "length (variables_blocks (create_blocks (DFG_init vs))) = length (filter has_block vs)"
    by (simp add: spec new_blocks_def DFG_init_def)
  have "has_block = (\<lambda>v. v_function v \<noteq> None \<and> \<not> is_import (the (v_function v)))"
  proof
    fix v show "has_block v = (v_function v \<noteq> None \<and> \<not> is_import (the (v_function v)))"
      by (cases "v_function v") (simp_all add: has_block_def)
  qed
  then have 5: "length (variables_blocks (create_blocks (DFG_init vs)))
       = length (filter (\<lambda>v. v_function v \<noteq> None \<and> \<not> is_import (the (v_function v))) vs)"
    using 4 by simp
  from 1 2 3 4 5 show ?thesis by (intro conjI)
qed

theorem create_blocks_one_per_variable_witness:
  "map name (variables_blocks (create_blocks (DFG_init mixed_variables))) = [''x'', ''w'']
   \<and> map graph_representation_name (variables_blocks (create_blocks (DFG_init mixed_variables)))
       = [''f1_x'', ''w'']
   \<and> map is_function_argument (variables_blocks (create_blocks (DFG_init mixed_variables)))
       = [True, False]
   \<and> length (variables_blocks (create_blocks (DFG_init mixed_variables))) = 2"
proof -
  note inst = create_blocks_one_per_variable[of "DFG_init mixed_variables" mixed_variables,
      THEN conjunct2, THEN conjunct2, THEN conjunct1]
  have f: "filter has_block mixed_variables
      = [plain_variable ''x'' (Some (local_function 1 [''x''])) True,
         plain_variable ''w'' (Some (local_function 1 [''x''])) False]"
    by (simp add: mixed_variables_def has_block_def plain_variable_def local_function_def
        import_function_def)
  have a: "all_functions_arguments (DFG_init mixed_variables) = [''x'', ''z'', ''x'']"
    by (simp add: DFG_init_def all_functions_def mixed_variables_def plain_variable_def
        local_function_def import_function_def List.map_filter_simps)
  show ?thesis
    unfolding inst f a
    by (simp add: plain_variable_def local_function_def str_int_def)
qed

subsection \<open>Display names\<close>

text \<open>
  The argument names that the resolver looks a name up in, as \<^verbatim>\<open>DFG.__init__\<close> collects
  them: the arguments of every function that owns a Variable of the list, import or not.
  The second definition follows the specification: the arguments of the non-import
  functions only.
\<close>

definition non_import_functions_arguments :: "variable list \<Rightarrow> string list" where
  "non_import_functions_arguments vs =
     concat (map arguments_list (filter (\<lambda>f. \<not> is_import f) (all_functions vs)))"

definition import_variables :: "variable list" where
  "import_variables =
     [plain_variable ''x'' (Some (local_function 1 [])) False,
      plain_variable ''x'' (Some (import_function 2 [''x''])) True]"

definition shared_argument_variables :: "variable list" where
  "shared_argument_variables =
     [plain_variable ''x'' (Some (local_function 1 [''x''])) True,
      plain_variable ''x'' (Some (local_function 2 [''x''])) True,
      plain_variable ''y'' None False,
      plain_variable ''y'' (Some (local_function 2 [''x''])) False]"

lemma set_all_functions:
  "set (all_functions vs) = {f. \<exists>v \<in> set vs. v_function v = Some f}"
  unfolding all_functions_def
  by (induction vs) (auto simp: List.map_filter_simps split: option.splits)

lemma set_all_functions_arguments:
  "set (all_functions_arguments (DFG_init vs))
     = {a. \<exists>v \<in> set vs. \<exists>f. v_function v = Some f \<and> a \<in> set (arguments_list f)}"
  by (auto simp: DFG_init_def set_all_functions)

lemma all_functions_arguments_create_blocks:
  "all_functions_arguments (create_blocks g) = all_functions_arguments g"
  by (simp add: create_blocks_def create_blocks_loop_spec)

lemma prefixed_neq: "''f'' @ i @ ''_'' @ n \<noteq> n"
proof
  assume "''f'' @ i @ ''_'' @ n = n"
  then have "length (''f'' @ i @ ''_'' @ n) = length n" by simp
  then show False by simp
qed

text \<open>
  Claim C3, as amended. The resolver returns \<^verbatim>\<open>f<id>_<name>\<close> exactly when the bare name
  is an argument name of some function that owns a Variable of the input list, import
  functions included, and the bare name otherwise. With \<^verbatim>\<open>x\<close> among these names, blocks
  named \<^verbatim>\<open>x\<close> of the functions 1 and 2 display as \<^verbatim>\<open>f1_x\<close> and \<^verbatim>\<open>f2_x\<close>; a block
  named \<^verbatim>\<open>x\<close> keeps its name when \<^verbatim>\<open>x\<close> is not among them. A name among the arguments
  of the non-import functions is always prefixed, and the two sets of names are the
  same when no Variable belongs to an import.
\<close>

theorem get_variable_name_all_functions:
  assumes "all_functions_arguments g = all_functions_arguments (DFG_init vs)"
  shows "get_variable_name g b =
           (if \<exists>v \<in> set vs. \<exists>f. v_function v = Some f \<and> name b \<in> set (arguments_list f)
            then ''f'' @ str_int (fid (func b)) @ ''_'' @ name b
            else name b)
       \<and> (get_variable_name g b = ''f'' @ str_int (fid (func b)) @ ''_'' @ name b
            \<longleftrightarrow> (\<exists>v \<in> set vs. \<exists>f. v_function v = Some f \<and> name b \<in> set (arguments_list f)))
       \<and> (get_variable_name g b = name b
            \<longleftrightarrow> \<not> (\<exists>v \<in> set vs. \<exists>f. v_function v = Some f \<and> name b \<in> set (arguments_list f)))
       \<and> (name b = ''x'' \<and> fid (func b) = 1 \<and>
            (\<exists>v \<in> set vs. \<exists>f. v_function v = Some f \<and> ''x'' \<in> set (arguments_list f))
            \<longrightarrow> get_variable_name g b = ''f1_x'')
       \<and> (name b = ''x'' \<and> fid (func b) = 2 \<and>
            (\<exists>v \<in> set vs. \<exists>f. v_function v = Some f \<and> ''x'' \<in> set (arguments_list f))
            \<longrightarrow> get_variable_name g b = ''f2_x'')
       \<and> (name b = ''x'' \<and>
            \<not> (\<exists>v \<in> set vs. \<exists>f. v_function v = Some f \<and> ''x'' \<in> set (arguments_list f))
            \<longrightarrow> get_variable_name g b = ''x'')
       \<and> (name b \<in> set (non_import_functions_arguments vs)
            \<longrightarrow> get_variable_name g b = ''f'' @ str_int (fid (func b)) @ ''_'' @ name b)
       \<and> ((\<forall>v \<in> set vs. \<forall>f. v_function v = Some f \<longrightarrow> \<not> is_import f)
            \<longrightarrow> set (all_functions_arguments g) = set (non_import_functions_arguments vs))"
proof -
  let ?in = "\<exists>v \<in> set vs. \<exists>f. v_function v = Some f \<and> name b \<in> set (arguments_list f)"
  let ?p = "''f'' @ str_int (fid (func b)) @ ''_'' @ name b"
  have mem: "name b \<in> set (all_functions_arguments g) \<longleftrightarrow> ?in"
    using set_all_functions_arguments[of vs] assms by simp
  have main: "get_variable_name g b = (if ?in then ?p else name b)"
    unfolding get_variable_name_def mem by simp
  have ne: "?p \<noteq> name b"
    by (rule prefixed_neq)
  have one: "str_int 1 = ''1''" and two: "str_int 2 = ''2''"
    by (simp_all add: str_int_def)
  have 2: "get_variable_name g b = ?p \<longleftrightarrow> ?in"
    unfolding main using ne by (cases ?in) simp_all
  have 3: "get_variable_name g b = name b \<longleftrightarrow> \<not> ?in"
    unfolding main using ne by (cases ?in) simp_all
  have 4: "name b = ''x'' \<and> fid (func b) = 1 \<and>
            (\<exists>v \<in> set vs. \<exists>f. v_function v = Some f \<and> ''x'' \<in> set (arguments_list f))
            \<longrightarrow> get_variable_name g b = ''f1_x''"
  proof
    assume a: "name b = ''x'' \<and> fid (func b) = 1 \<and>
            (\<exists>v \<in> set vs. \<exists>f. v_function v = Some f \<and> ''x'' \<in> set (arguments_list f))"
    then have "?in" by simp
    then have "get_variable_name g b = ?p" by (simp only: main if_True)
    then show "get_variable_name g b = ''f1_x''" using a one by simp
  qed
  have 5: "name b = ''x'' \<and> fid (func b) = 2 \<and>
            (\<exists>v \<in> set vs. \<exists>f. v_function v = Some f \<and> ''x'' \<in> set (arguments_list f))
            \<longrightarrow> get_variable_name g b = ''f2_x''"
  proof
    assume a: "name b = ''x'' \<and> fid (func b) = 2 \<and>
            (\<exists>v \<in> set vs. \<exists>f. v_function v = Some f \<and> ''x'' \<in> set (arguments_list f))"
    then have "?in" by simp
    then have "get_variable_name g b = ?p" by (simp only: main if_True)
    then show "get_variable_name g b = ''f2_x''" using a two by simp
  qed
  have 6: "name b = ''x'' \<and>
            \<not> (\<exists>v \<in> set vs. \<exists>f. v_function v = Some f \<and> ''x'' \<in> set (arguments_list f))
            \<longrightarrow> get_variable_name g b = ''x''"
  proof
    assume a: "name b = ''x'' \<and>
            \<not> (\<exists>v \<in> set vs. \<exists>f. v_function v = Some f \<and> ''x'' \<in> set (arguments_list f))"
    then have "\<not> ?in" by simp
    then have "get_variable_name g b = name b" by (simp only: main if_False)
    then show "get_variable_name g b = ''x''" using a by simp
  qed
  have 7: "name b \<in> set (non_import_functions_arguments vs) \<longrightarrow> get_variable_name g b = ?p"
  proof
    assume "name b \<in> set (non_import_functions_arguments vs)"
    then have "?in"
      by (auto simp: non_import_functions_arguments_def set_all_functions)
    then show "get_variable_name g b = ?p" by (simp only: main if_True)
  qed
  have 8: "(\<forall>v \<in> set vs. \<forall>f. v_function v = Some f \<longrightarrow> \<not> is_import f)
            \<longrightarrow> set (all_functions_arguments g) = set (non_import_functions_arguments vs)"
  proof
    assume "\<forall>v \<in> set vs. \<forall>f. v_function v = Some f \<longrightarrow> \<not> is_import f"
    then have "\<forall>f \<in> set (all_functions vs). \<not> is_import f"
      by (auto simp: set_all_functions)
    then have "filter (\<lambda>f. \<not> is_import f) (all_functions vs) = all_functions vs"
      by (simp add: filter_id_conv)
    then show "set (all_functions_arguments g) = set (non_import_functions_arguments vs)"
      unfolding assms by (simp add: non_import_functions_arguments_def DFG_init_def)
  qed
  from main 2 3 4 5 6 7 8 show ?thesis by (intro conjI)
qed

theorem get_variable_name_all_functions_witness:
  "get_variable_name (create_blocks (DFG_init shared_argument_variables))
     (new_DFGVariableBlock ''x'' (local_function 1 [''x'']) True False) = ''f1_x'' \<and>
   get_variable_name (create_blocks (DFG_init shared_argument_variables))
     (new_DFGVariableBlock ''x'' (local_function 2 [''x'']) True False) = ''f2_x'' \<and>
   get_variable_name (create_blocks (DFG_init shared_argument_variables))
     (new_DFGVariableBlock ''y'' (local_function 2 [''x'']) False False) = ''y'' \<and>
   map graph_representation_name
     (variables_blocks (create_blocks (DFG_init shared_argument_variables)))
     = [''f1_x'', ''f2_x'', ''y'']"
proof -
  note inst = get_variable_name_all_functions[
      OF all_functions_arguments_create_blocks[of "DFG_init shared_argument_variables"]]
  have x: "\<exists>v \<in> set shared_argument_variables.
             \<exists>f. v_function v = Some f \<and> ''x'' \<in> set (arguments_list f)"
    by (simp add: shared_argument_variables_def plain_variable_def local_function_def)
  have y: "\<not> (\<exists>v \<in> set shared_argument_variables.
             \<exists>f. v_function v = Some f \<and> ''y'' \<in> set (arguments_list f))"
    by (simp add: shared_argument_variables_def plain_variable_def local_function_def)
  have 1: "get_variable_name (create_blocks (DFG_init shared_argument_variables))
     (new_DFGVariableBlock ''x'' (local_function 1 [''x'']) True False) = ''f1_x''"
    by (rule mp[OF inst[THEN conjunct2, THEN conjunct2, THEN conjunct2, THEN conjunct1]])
       (simp add: x new_DFGVariableBlock_def local_function_def)
  have 2: "get_variable_name (create_blocks (DFG_init shared_argument_variables))
     (new_DFGVariableBlock ''x'' (local_function 2 [''x'']) True False) = ''f2_x''"
    by (rule mp[OF inst[THEN conjunct2, THEN conjunct2, THEN conjunct2, THEN conjunct2,
          THEN conjunct1]])
       (simp add: x new_DFGVariableBlock_def local_function_def)
  have 3: "get_variable_name (create_blocks (DFG_init shared_argument_variables))
     (new_DFGVariableBlock ''y'' (local_function 2 [''x'']) False False) = ''y''"
    using inst[THEN conjunct1, of "new_DFGVariableBlock ''y'' (local_function 2 [''x'']) False False"] y
    by (simp add: new_DFGVariableBlock_def)
  have 4: "map graph_representation_name
     (variables_blocks (create_blocks (DFG_init shared_argument_variables)))
     = [''f1_x'', ''f2_x'', ''y'']"
    by (simp add: create_blocks_def shared_argument_variables_def plain_variable_def
        local_function_def DFG_init_def all_functions_def List.map_filter_simps
        create_block_def get_variable_name_def new_DFGVariableBlock_def str_int_def)
  from 1 2 3 4 show ?thesis by (intro conjI)
qed

text \<open>
  An import function with the argument \<^verbatim>\<open>x\<close> and a variable \<^verbatim>\<open>x\<close> of a function
  without arguments: \<^verbatim>\<open>x\<close> is an argument of no non-import function, and the block is
  displayed as \<^verbatim>\<open>f1_x\<close>.
\<close>

theorem get_variable_name_import_counterexample:
  "''x'' \<notin> set (non_import_functions_arguments import_variables) \<and>
   get_variable_name (DFG_init import_variables)
     (new_DFGVariableBlock ''x'' (local_function 1 []) False False) = ''f1_x'' \<and>
   map graph_representation_name (variables_blocks (create_blocks (DFG_init import_variables)))
     = [''f1_x'']"
  by (simp add: non_import_functions_arguments_def import_variables_def plain_variable_def
      local_function_def import_function_def all_functions_def DFG_init_def
      List.map_filter_simps
      get_variable_name_def new_DFGVariableBlock_def str_int_def create_blocks_def
      create_block_def)

subsection \<open>Edge construction\<close>

lemma blocks_where_set: "set (blocks_where bs P) = {i. i < length bs \<and> P (bs ! i)}"
  by (auto simp: blocks_where_def)

lemma blocks_where_distinct: "distinct (blocks_where bs P)"
  by (simp add: blocks_where_def)

lemma blocks_where_cong:
  assumes "length bs' = length bs" and "\<And>i. i < length bs \<Longrightarrow> P (bs' ! i) = P (bs ! i)"
  shows "blocks_where bs' P = blocks_where bs P"
  unfolding blocks_where_def assms(1)
  by (rule filter_cong[OF refl]) (simp add: assms(2))

text \<open>
  A block without its relations, and one pass of the loop over \<^verbatim>\<open>source_blocks\<close>: the
  destination is appended to the children of the source and the source to the parents of
  the destination.
\<close>

definition unlinked :: "DFGVariableBlock \<Rightarrow> DFGVariableBlock" where
  "unlinked b = b\<lparr>parents_blocks := [], children_blocks := []\<rparr>"

definition link :: "DFGVariableBlock list \<Rightarrow> nat \<Rightarrow> nat \<Rightarrow> DFGVariableBlock list" where
  "link bs d s =
     (let bs1 = bs[s := (bs ! s)\<lparr>children_blocks := children_blocks (bs ! s) @ [d]\<rparr>]
      in bs1[d := (bs1 ! d)\<lparr>parents_blocks := parents_blocks (bs1 ! d) @ [s]\<rparr>])"

lemma length_link [simp]: "length (link bs d s) = length bs"
  by (simp add: link_def Let_def)

lemma children_link:
  "i < length bs \<Longrightarrow>
   children_blocks (link bs d s ! i) = children_blocks (bs ! i) @ (if i = s then [d] else [])"
  by (cases "i = s"; cases "i = d") (simp_all add: link_def Let_def)

lemma parents_link:
  "i < length bs \<Longrightarrow>
   parents_blocks (link bs d s ! i) = parents_blocks (bs ! i) @ (if i = d then [s] else [])"
  by (cases "i = s"; cases "i = d") (simp_all add: link_def Let_def)

lemma unlinked_link:
  "i < length bs \<Longrightarrow> unlinked (link bs d s ! i) = unlinked (bs ! i)"
  by (cases "i = s"; cases "i = d") (simp_all add: link_def Let_def unlinked_def)

lemma length_foldl_link [simp]: "length (foldl (\<lambda>bs. link bs d) bs ss) = length bs"
  by (induction ss arbitrary: bs) simp_all

lemma children_foldl_link:
  "i < length bs \<Longrightarrow>
   children_blocks (foldl (\<lambda>bs. link bs d) bs ss ! i)
     = children_blocks (bs ! i) @ replicate (count_list ss i) d"
proof (induction ss arbitrary: bs)
  case Nil
  then show ?case by simp
next
  case (Cons s ss)
  have "children_blocks (foldl (\<lambda>bs. link bs d) (link bs d s) ss ! i)
      = children_blocks (link bs d s ! i) @ replicate (count_list ss i) d"
    using Cons.prems by (intro Cons.IH) simp
  then show ?case using Cons.prems by (simp add: children_link replicate_app_Cons_same)
qed

lemma parents_foldl_link:
  "i < length bs \<Longrightarrow>
   parents_blocks (foldl (\<lambda>bs. link bs d) bs ss ! i)
     = parents_blocks (bs ! i) @ (if i = d then ss else [])"
proof (induction ss arbitrary: bs)
  case Nil
  then show ?case by simp
next
  case (Cons s ss)
  have "parents_blocks (foldl (\<lambda>bs. link bs d) (link bs d s) ss ! i)
      = parents_blocks (link bs d s ! i) @ (if i = d then ss else [])"
    using Cons.prems by (intro Cons.IH) simp
  then show ?case using Cons.prems by (simp add: parents_link)
qed

lemma unlinked_foldl_link:
  "i < length bs \<Longrightarrow> unlinked (foldl (\<lambda>bs. link bs d) bs ss ! i) = unlinked (bs ! i)"
proof (induction ss arbitrary: bs)
  case Nil
  then show ?case by simp
next
  case (Cons s ss)
  have "unlinked (foldl (\<lambda>bs. link bs d) (link bs d s) ss ! i) = unlinked (link bs d s ! i)"
    using Cons.prems by (intro Cons.IH) simp
  then show ?case using Cons.prems by (simp add: unlinked_link)
qed

text \<open>The edges that \<^verbatim>\<open>_create_edges\<close> emits.\<close>

definition variable_edge :: "nat \<Rightarrow> func option \<Rightarrow> nat \<Rightarrow> DFGEdge" where
  "variable_edge d f s = \<lparr>e_source = VariableSource s, e_destination = d, e_function = f\<rparr>"

lemma link_sources_spec:
  "link_sources g d f ss =
     g\<lparr>variables_blocks := foldl (\<lambda>bs. link bs d) (variables_blocks g) ss,
       edges := edges g @ map (variable_edge d f) ss\<rparr>"
proof (induction ss arbitrary: g)
  case Nil
  then show ?case by simp
next
  case (Cons s ss)
  let ?g1 = "g\<lparr>variables_blocks := link (variables_blocks g) d s,
                edges := edges g @ [variable_edge d f s]\<rparr>"
  have "link_sources g d f (s # ss) = link_sources ?g1 d f ss"
    by (simp add: link_def Let_def variable_edge_def)
  also have "\<dots> = ?g1\<lparr>variables_blocks := foldl (\<lambda>bs. link bs d) (variables_blocks ?g1) ss,
       edges := edges ?g1 @ map (variable_edge d f) ss\<rparr>"
    by (rule Cons.IH)
  finally show ?case by simp
qed

text \<open>
  The payloads of the operands of one type, in the order of the operation, and the
  literal that a Constant Block takes from a payload.
\<close>

definition payloads :: "OperandType \<Rightarrow> element list \<Rightarrow> payload list" where
  "payloads ty operation =
     List.map_filter (\<lambda>e. case e of Operand t p \<Rightarrow> if t = ty then Some p else None
                                | NonOperand \<Rightarrow> None) operation"

definition literal :: "payload \<Rightarrow> atom" where
  "literal p = (case p of Scalar x \<Rightarrow> x | Multi xs \<Rightarrow> xs ! 0)"

definition constant_block :: "variable \<Rightarrow> nat \<Rightarrow> payload \<Rightarrow> DFGConstantBlock" where
  "constant_block v k p =
     \<lparr> c_value = literal p, c_id = k, c_variable = v, c_function = v_function v \<rparr>"

definition constant_edge :: "nat \<Rightarrow> func option \<Rightarrow> nat \<Rightarrow> DFGEdge" where
  "constant_edge d f k = \<lparr>e_source = ConstantSource k, e_destination = d, e_function = f\<rparr>"

text \<open>The blocks that a variable-typed operand is resolved to.\<close>

definition resolve :: "DFGVariableBlock list \<Rightarrow> variable \<Rightarrow> payload \<Rightarrow> nat list" where
  "resolve bs v p =
     (case p of
        Multi xs \<Rightarrow> blocks_where bs (\<lambda>b. v_function v = Some (func b) \<and> Str (name b) \<in> set xs)
      | Scalar x \<Rightarrow> blocks_where bs (\<lambda>b. v_function v = Some (func b) \<and> name b = v_name v))"

lemma payloads_Nil [simp]: "payloads ty [] = []"
  by (simp add: payloads_def List.map_filter_simps)

lemma payloads_Cons:
  "payloads ty (e # es) =
     (case e of Operand t p \<Rightarrow> if t = ty then [p] else [] | NonOperand \<Rightarrow> []) @ payloads ty es"
  by (cases e) (simp_all add: payloads_def List.map_filter_simps)

lemma source_blocks_spec:
  "source_blocks bs v (filter (\<lambda>e. operand_type e = Some ty) (filter is_Operand operation))
     = concat (map (resolve bs v) (payloads ty operation))"
proof (induction operation)
  case Nil
  then show ?case by simp
next
  case (Cons e es)
  show ?case
  proof (cases e)
    case NonOperand
    then show ?thesis using Cons.IH by (simp add: is_Operand_def payloads_Cons)
  next
    case (Operand t p)
    show ?thesis
    proof (cases "t = ty")
      case False
      then show ?thesis using Cons.IH Operand
        by (simp add: is_Operand_def operand_type_def payloads_Cons)
    next
      case True
      then show ?thesis using Cons.IH Operand
        by (cases p) (simp_all add: is_Operand_def operand_type_def payloads_Cons resolve_def)
    qed
  qed
qed

lemma add_constant_spec:
  "add_constant g v d x =
     g\<lparr>constants_blocks := constants_blocks g @
          [\<lparr> c_value = x, c_id = length (constants_blocks g),
             c_variable = v, c_function = v_function v \<rparr>],
       edges := edges g @ [constant_edge d (v_function v) (length (constants_blocks g))]\<rparr>"
  by (simp add: add_constant_def constant_edge_def)

lemma add_constants_spec:
  "add_constants g v d (filter (\<lambda>e. operand_type e = Some ty) (filter is_Operand operation))
     = (if Multi [] \<in> set (payloads ty operation) then Inl IndexError
        else Inr (g\<lparr>constants_blocks := constants_blocks g @
                      map (\<lambda>(k, p). constant_block v k p)
                        (enumerate (length (constants_blocks g)) (payloads ty operation)),
                    edges := edges g @
                      map (constant_edge d (v_function v))
                        [length (constants_blocks g) ..<
                           length (constants_blocks g) + length (payloads ty operation)]\<rparr>))"
proof (induction operation arbitrary: g)
  case Nil
  then show ?case by simp
next
  case (Cons e es)
  show ?case
  proof (cases e)
    case NonOperand
    then show ?thesis using Cons.IH[of g] by (simp add: is_Operand_def payloads_Cons)
  next
    case (Operand t p)
    show ?thesis
    proof (cases "t = ty")
      case False
      then show ?thesis using Cons.IH[of g] Operand
        by (simp add: is_Operand_def operand_type_def payloads_Cons)
    next
      case True
      have pl: "payloads ty (Operand t p # es) = p # payloads ty es"
        using True by (simp add: payloads_Cons)
      have fl: "filter (\<lambda>e. operand_type e = Some ty) (filter is_Operand (Operand t p # es))
          = Operand t p # filter (\<lambda>e. operand_type e = Some ty) (filter is_Operand es)"
        using True by (simp add: is_Operand_def operand_type_def)
      let ?n = "length (constants_blocks g)"
      show ?thesis
      proof (cases "p = Multi []")
        case True
        then show ?thesis unfolding Operand fl pl by simp
      next
        case False
        then obtain x where x: "literal p = x"
          and step: "\<And>g ps. add_constants g v d (Operand t p # ps)
                        = add_constants (add_constant g v d x) v d ps"
        proof (cases p)
          case (Scalar y)
          then show ?thesis using that[of y] by (simp add: literal_def)
        next
          case (Multi ys)
          then obtain y ys' where "ys = y # ys'" using False by (cases ys) simp_all
          then show ?thesis using that[of y] Multi by (simp add: literal_def)
        qed
        let ?g1 = "add_constant g v d x"
        let ?cb = "\<lambda>(k, p). constant_block v k p"
        let ?ce = "constant_edge d (v_function v)"
        have cb: "constants_blocks ?g1 @
              map ?cb (enumerate (length (constants_blocks ?g1)) (payloads ty es))
            = constants_blocks g @ map ?cb (enumerate ?n (p # payloads ty es))"
          by (simp add: add_constant_spec constant_block_def x)
        have ed: "edges ?g1 @
              map ?ce [length (constants_blocks ?g1) ..<
                         length (constants_blocks ?g1) + length (payloads ty es)]
            = edges g @ map ?ce [?n ..< ?n + length (p # payloads ty es)]"
          by (simp add: add_constant_spec upt_conv_Cons del: upt_Suc)
        have rec: "?g1\<lparr>constants_blocks := A, edges := E\<rparr> = g\<lparr>constants_blocks := A, edges := E\<rparr>"
          for A E by (simp add: add_constant_spec)
        have mem: "Multi [] \<in> set (p # payloads ty es) \<longleftrightarrow> Multi [] \<in> set (payloads ty es)"
          using False by auto
        have "add_constants g v d
                (filter (\<lambda>e. operand_type e = Some ty) (filter is_Operand (Operand t p # es)))
            = add_constants ?g1 v d
                (filter (\<lambda>e. operand_type e = Some ty) (filter is_Operand es))"
          by (simp only: fl step)
        also have "\<dots> = (if Multi [] \<in> set (payloads ty es) then Inl IndexError
            else Inr (?g1\<lparr>constants_blocks := constants_blocks ?g1 @
                         map ?cb (enumerate (length (constants_blocks ?g1)) (payloads ty es)),
                       edges := edges ?g1 @
                         map ?ce [length (constants_blocks ?g1) ..<
                           length (constants_blocks ?g1) + length (payloads ty es)]\<rparr>))"
          by (rule Cons.IH)
        finally show ?thesis
          unfolding Operand pl cb ed rec mem .
      qed
    qed
  qed
qed

text \<open>
  The list that \<^verbatim>\<open>_create_edges\<close> takes element 0 of: the blocks with the function and
  the name of the variable.
\<close>

definition destinations :: "DFGVariableBlock list \<Rightarrow> variable \<Rightarrow> nat list" where
  "destinations bs v = blocks_where bs (\<lambda>b. v_function v = Some (func b) \<and> v_name v = name b)"

text \<open>The operation of a variable that is assigned a direct expression.\<close>

definition direct_operation :: "variable \<Rightarrow> element list option" where
  "direct_operation v =
     (case v_value v of
        None \<Rightarrow> None
      | Some (DirectExpression operation) \<Rightarrow> Some operation
      | Some (FUNCTION_CALL callee call_number) \<Rightarrow> None)"

text \<open>
  The graph after the edges of one variable were added: the sources are linked to the
  destination, one Constant Block is appended per integer-typed operand, and the edges
  from the Variable Blocks come before the edges from the Constant Blocks.
\<close>

definition with_edges :: "DFG \<Rightarrow> variable \<Rightarrow> element list \<Rightarrow> DFG" where
  "with_edges g v operation =
     (let bs = variables_blocks g;
          d = destinations bs v ! 0;
          srcs = concat (map (resolve bs v) (payloads VARIABLE operation));
          n = length (constants_blocks g);
          ps = payloads INTEGER operation
      in g\<lparr>variables_blocks := foldl (\<lambda>bs. link bs d) bs srcs,
           constants_blocks := constants_blocks g @
             map (\<lambda>(k, p). constant_block v k p) (enumerate n ps),
           edges := edges g @ map (variable_edge d (v_function v)) srcs @
             map (constant_edge d (v_function v)) [n ..< n + length ps]\<rparr>)"

definition fails_on :: "DFGVariableBlock list \<Rightarrow> variable \<Rightarrow> bool" where
  "fails_on bs v =
     (case direct_operation v of
        None \<Rightarrow> False
      | Some operation \<Rightarrow>
          destinations bs v = [] \<or> Multi [] \<in> set (payloads INTEGER operation))"

lemma create_edges_variable_skip:
  "direct_operation v = None \<Longrightarrow> create_edges_variable g v = Inr g"
  by (cases "v_value v"; cases "the (v_value v)")
     (simp_all add: direct_operation_def create_edges_variable_def)

lemma create_edges_variable_spec:
  assumes "direct_operation v = Some operation"
  shows "create_edges_variable g v =
     (if destinations (variables_blocks g) v = [] \<or> Multi [] \<in> set (payloads INTEGER operation)
      then Inl IndexError else Inr (with_edges g v operation))"
proof -
  have val: "v_value v = Some (DirectExpression operation)"
    using assms
    by (cases "v_value v"; cases "the (v_value v)") (simp_all add: direct_operation_def)
  show ?thesis
  proof (cases "destinations (variables_blocks g) v")
    case Nil
    then show ?thesis
      by (simp add: create_edges_variable_def val destinations_def)
  next
    case (Cons d rest)
    have d: "destinations (variables_blocks g) v ! 0 = d"
      by (simp add: Cons)
    let ?srcs = "concat (map (resolve (variables_blocks g) v) (payloads VARIABLE operation))"
    let ?g1 = "link_sources g d (v_function v) ?srcs"
    have "create_edges_variable g v
        = add_constants ?g1 v d
            (filter (\<lambda>e. operand_type e = Some INTEGER) (filter is_Operand operation))"
      using Cons
      by (simp add: create_edges_variable_def val destinations_def Let_def source_blocks_spec
          del: filter_filter)
    also have "\<dots> = (if Multi [] \<in> set (payloads INTEGER operation) then Inl IndexError
        else Inr (?g1\<lparr>constants_blocks := constants_blocks ?g1 @
                      map (\<lambda>(k, p). constant_block v k p)
                        (enumerate (length (constants_blocks ?g1)) (payloads INTEGER operation)),
                    edges := edges ?g1 @
                      map (constant_edge d (v_function v))
                        [length (constants_blocks ?g1) ..<
                           length (constants_blocks ?g1) + length (payloads INTEGER operation)]\<rparr>))"
      by (rule add_constants_spec)
    also have "\<dots> = (if Multi [] \<in> set (payloads INTEGER operation) then Inl IndexError
        else Inr (with_edges g v operation))"
      by (simp add: link_sources_spec with_edges_def Let_def d)
    finally show ?thesis by (simp add: Cons)
  qed
qed

lemma unlinked_with_edges:
  "map unlinked (variables_blocks (with_edges g v operation)) = map unlinked (variables_blocks g)"
  by (rule nth_equalityI) (simp_all add: with_edges_def Let_def unlinked_foldl_link)

lemma destinations_unlinked:
  assumes "map unlinked bs' = map unlinked bs"
  shows "destinations bs' v = destinations bs v"
proof -
  have len: "length bs' = length bs"
    using assms by (rule map_eq_imp_length_eq)
  have nth: "unlinked (bs' ! i) = unlinked (bs ! i)" if "i < length bs" for i
    using that len arg_cong[OF assms, of "\<lambda>xs. xs ! i"] by simp
  have "func (bs' ! i) = func (bs ! i) \<and> name (bs' ! i) = name (bs ! i)" if "i < length bs" for i
  proof
    have "func (bs' ! i) = func (unlinked (bs' ! i))" by (simp add: unlinked_def)
    also have "\<dots> = func (unlinked (bs ! i))" by (simp only: nth[OF that])
    also have "\<dots> = func (bs ! i)" by (simp add: unlinked_def)
    finally show "func (bs' ! i) = func (bs ! i)" .
    have "name (bs' ! i) = name (unlinked (bs' ! i))" by (simp add: unlinked_def)
    also have "\<dots> = name (unlinked (bs ! i))" by (simp only: nth[OF that])
    also have "\<dots> = name (bs ! i)" by (simp add: unlinked_def)
    finally show "name (bs' ! i) = name (bs ! i)" .
  qed
  then show ?thesis
    unfolding destinations_def by (intro blocks_where_cong len) simp
qed

lemma fails_on_unlinked:
  "map unlinked bs' = map unlinked bs \<Longrightarrow> fails_on bs' v = fails_on bs v"
  using destinations_unlinked[of bs' bs v] by (simp add: fails_on_def split: option.splits)

lemma create_edges_variable_fails:
  "create_edges_variable g v = Inl IndexError \<longleftrightarrow> fails_on (variables_blocks g) v"
proof (cases "direct_operation v")
  case None
  then show ?thesis by (simp add: create_edges_variable_skip fails_on_def)
next
  case (Some operation)
  then show ?thesis by (simp add: create_edges_variable_spec fails_on_def)
qed

lemma create_edges_variable_unlinked:
  assumes "create_edges_variable g v = Inr g'"
  shows "map unlinked (variables_blocks g') = map unlinked (variables_blocks g)"
proof (cases "direct_operation v")
  case None
  then show ?thesis using assms by (simp add: create_edges_variable_skip)
next
  case (Some operation)
  then have "g' = with_edges g v operation"
    using assms by (simp add: create_edges_variable_spec split: if_splits)
  then show ?thesis by (simp add: unlinked_with_edges)
qed

lemma create_edges_loop_fails:
  "create_edges_loop g vs = Inl IndexError \<longleftrightarrow> (\<exists>v \<in> set vs. fails_on (variables_blocks g) v)"
proof (induction vs arbitrary: g)
  case Nil
  then show ?case by simp
next
  case (Cons v vs)
  show ?case
  proof (cases "create_edges_variable g v")
    case (Inl e)
    then have "fails_on (variables_blocks g) v"
      using create_edges_variable_fails[of g v] by (cases e) simp
    then show ?thesis using Inl by (cases e) simp
  next
    case (Inr g')
    then have nf: "\<not> fails_on (variables_blocks g) v"
      using create_edges_variable_fails[of g v] by simp
    have same: "fails_on (variables_blocks g') w = fails_on (variables_blocks g) w" for w
      by (rule fails_on_unlinked) (rule create_edges_variable_unlinked[OF Inr])
    show ?thesis using Inr nf by (simp add: Cons.IH same)
  qed
qed

lemma create_functions_calls_loop_frame:
  "(create_functions_calls_loop g vs)\<lparr>functions_calls_blocks := X\<rparr>
     = g\<lparr>functions_calls_blocks := X\<rparr>"
proof (induction vs arbitrary: g)
  case Nil
  then show ?case by simp
next
  case (Cons v vs)
  let ?g1 = "case v_value v of
          None \<Rightarrow> g
        | Some (DirectExpression operation) \<Rightarrow> g
        | Some (FUNCTION_CALL callee call_number) \<Rightarrow>
            g\<lparr>functions_calls_blocks := functions_calls_blocks g @
                [\<lparr> cb_value = fname callee,
                   cb_arguments = arguments_list_explicit callee,
                   cb_return_values = arguments_list_ret callee,
                   cb_function = v_function v,
                   cb_call_number = call_number \<rparr>]\<rparr>"
  have "?g1\<lparr>functions_calls_blocks := X\<rparr> = g\<lparr>functions_calls_blocks := X\<rparr>"
    by (cases "v_value v"; cases "the (v_value v)") simp_all
  then show ?case using Cons.IH[of ?g1] by simp
qed

lemma create_functions_calls_fields:
  "variables_blocks (create_functions_calls g) = variables_blocks g"
  "variables (create_functions_calls g) = variables g"
  "constants_blocks (create_functions_calls g) = constants_blocks g"
  "edges (create_functions_calls g) = edges g"
proof -
  have eq: "(create_functions_calls g)\<lparr>functions_calls_blocks := []\<rparr>
      = g\<lparr>functions_calls_blocks := []\<rparr>"
    unfolding create_functions_calls_def by (rule create_functions_calls_loop_frame)
  show "variables_blocks (create_functions_calls g) = variables_blocks g"
    using arg_cong[OF eq, of variables_blocks] by simp
  show "variables (create_functions_calls g) = variables g"
    using arg_cong[OF eq, of variables] by simp
  show "constants_blocks (create_functions_calls g) = constants_blocks g"
    using arg_cong[OF eq, of constants_blocks] by simp
  show "edges (create_functions_calls g) = edges g"
    using arg_cong[OF eq, of edges] by simp
qed

lemma create_blocks_spec:
  "create_blocks g = g\<lparr>variables_blocks := variables_blocks g @ new_blocks g (variables g)\<rparr>"
  by (simp add: create_blocks_def create_blocks_loop_spec)

lemma has_block_Some: "has_block v \<longleftrightarrow> (\<exists>f. v_function v = Some f \<and> \<not> is_import f)"
  by (cases "v_function v") (simp_all add: has_block_def)

lemma new_blocks_nth:
  assumes "i < length (filter has_block vs)"
  shows "name (new_blocks g vs ! i) = v_name (filter has_block vs ! i)"
    and "Some (func (new_blocks g vs ! i)) = v_function (filter has_block vs ! i)"
    and "\<not> is_import (func (new_blocks g vs ! i))"
proof -
  let ?w = "filter has_block vs ! i"
  have "?w \<in> set (filter has_block vs)"
    using assms by (rule nth_mem)
  then have "has_block ?w" by simp
  then obtain f where f: "v_function ?w = Some f" "\<not> is_import f"
    unfolding has_block_Some by (elim exE conjE)
  have b: "new_blocks g vs ! i = create_block g ?w f"
    using assms f by (simp add: new_blocks_def)
  show "name (new_blocks g vs ! i) = v_name ?w"
    unfolding b by (simp add: create_block_def new_DFGVariableBlock_def Let_def)
  show "Some (func (new_blocks g vs ! i)) = v_function ?w"
    unfolding b f by (simp add: create_block_def new_DFGVariableBlock_def Let_def)
  show "\<not> is_import (func (new_blocks g vs ! i))"
    unfolding b using f by (simp add: create_block_def new_DFGVariableBlock_def Let_def)
qed

lemma length_new_blocks [simp]: "length (new_blocks g vs) = length (filter has_block vs)"
  by (simp add: new_blocks_def)

lemma destinations_new_blocks:
  assumes "v \<in> set vs"
  shows "destinations (new_blocks g vs) v = [] \<longleftrightarrow> \<not> has_block v"
proof
  assume empty: "destinations (new_blocks g vs) v = []"
  show "\<not> has_block v"
  proof
    assume hb: "has_block v"
    then have "v \<in> set (filter has_block vs)" using assms by simp
    then obtain i where i: "i < length (filter has_block vs)" "filter has_block vs ! i = v"
      unfolding in_set_conv_nth by (elim exE conjE)
    have "i \<in> set (destinations (new_blocks g vs) v)"
      unfolding destinations_def blocks_where_set
      using i new_blocks_nth(1,2)[OF i(1), of g] by simp
    then show False using empty by simp
  qed
next
  assume nb: "\<not> has_block v"
  have "i \<notin> set (destinations (new_blocks g vs) v)" for i
  proof
    assume "i \<in> set (destinations (new_blocks g vs) v)"
    then have i: "i < length (filter has_block vs)"
      and f: "v_function v = Some (func (new_blocks g vs ! i))"
      unfolding destinations_def blocks_where_set by simp_all
    have "\<not> is_import (func (new_blocks g vs ! i))"
      by (rule new_blocks_nth(3)[OF i])
    then have "has_block v"
      unfolding has_block_Some using f by (intro exI conjI)
    then show False using nb by simp
  qed
  then show "destinations (new_blocks g vs) v = []"
    by (cases "destinations (new_blocks g vs) v") (simp, metis list.set_intros(1))
qed

lemma direct_operation_Some:
  "direct_operation v = Some operation \<longleftrightarrow> v_value v = Some (DirectExpression operation)"
  by (cases "v_value v"; cases "the (v_value v)") (simp_all add: direct_operation_def)

lemma fails_on_iff:
  "fails_on bs v \<longleftrightarrow>
     (\<exists>operation. v_value v = Some (DirectExpression operation) \<and>
        (destinations bs v = [] \<or> Multi [] \<in> set (payloads INTEGER operation)))"
  unfolding direct_operation_Some[symmetric]
  by (cases "direct_operation v") (simp_all add: fails_on_def)

lemma destinations_Nil:
  "destinations bs v = [] \<longleftrightarrow>
     \<not> (\<exists>i<length bs. v_function v = Some (func (bs ! i)) \<and> v_name v = name (bs ! i))"
proof -
  have "destinations bs v = [] \<longleftrightarrow> set (destinations bs v) = {}" by simp
  also have "\<dots> \<longleftrightarrow>
     \<not> (\<exists>i<length bs. v_function v = Some (func (bs ! i)) \<and> v_name v = name (bs ! i))"
    unfolding destinations_def blocks_where_set by auto
  finally show ?thesis .
qed

text \<open>A variable that is assigned a direct expression.\<close>

definition valued_variable :: "string \<Rightarrow> func option \<Rightarrow> element list \<Rightarrow> variable" where
  "valued_variable n f operation =
     \<lparr> v_name = n, v_function = f, v_is_function_argument = False,
       v_is_function_return_value = False, v_value = Some (DirectExpression operation) \<rparr>"

text \<open>
  Claim C7, as amended. \<^verbatim>\<open>_create_edges\<close> raises IndexError exactly when some Variable
  with a direct expression as value has no Variable Block with its function and name, or
  has an integer-typed operand whose payload is an empty list. When the blocks were
  built by \<^verbatim>\<open>_create_blocks\<close> from the same list, the block is missing exactly when the
  function of such a Variable is \<^verbatim>\<open>None\<close> or an import.
\<close>

theorem create_edges_fails:
  "(create_edges g = Inl IndexError \<longleftrightarrow>
      (\<exists>v \<in> set (variables g). \<exists>operation. v_value v = Some (DirectExpression operation) \<and>
         (\<not> (\<exists>i<length (variables_blocks g).
                 v_function v = Some (func (variables_blocks g ! i)) \<and>
                 v_name v = name (variables_blocks g ! i))
          \<or> Multi [] \<in> set (payloads INTEGER operation))))
   \<and> (create_dfg (DFG_init vs) = Inl IndexError \<longleftrightarrow>
      (\<exists>v \<in> set vs. \<exists>operation. v_value v = Some (DirectExpression operation) \<and>
         (v_function v = None \<or> is_import (the (v_function v))
          \<or> Multi [] \<in> set (payloads INTEGER operation))))"
proof
  show "create_edges g = Inl IndexError \<longleftrightarrow>
      (\<exists>v \<in> set (variables g). \<exists>operation. v_value v = Some (DirectExpression operation) \<and>
         (\<not> (\<exists>i<length (variables_blocks g).
                 v_function v = Some (func (variables_blocks g ! i)) \<and>
                 v_name v = name (variables_blocks g ! i))
          \<or> Multi [] \<in> set (payloads INTEGER operation)))"
    unfolding create_edges_def create_edges_loop_fails fails_on_iff destinations_Nil ..
next
  let ?g = "create_functions_calls (create_blocks (DFG_init vs))"
  have bs: "variables_blocks ?g = new_blocks (DFG_init vs) vs"
    and vars: "variables ?g = vs"
    by (simp_all add: create_functions_calls_fields create_blocks_spec DFG_init_def)
  have nb: "\<not> has_block v \<longleftrightarrow> v_function v = None \<or> is_import (the (v_function v))" for v
    by (cases "v_function v") (simp_all add: has_block_def)
  have "create_dfg (DFG_init vs) = Inl IndexError
      \<longleftrightarrow> (\<exists>v \<in> set vs. fails_on (new_blocks (DFG_init vs) vs) v)"
    unfolding create_dfg_def create_edges_def create_edges_loop_fails bs vars ..
  also have "\<dots> \<longleftrightarrow> (\<exists>v \<in> set vs. \<exists>operation. v_value v = Some (DirectExpression operation) \<and>
         (\<not> has_block v \<or> Multi [] \<in> set (payloads INTEGER operation)))"
    unfolding fails_on_iff using destinations_new_blocks[of _ vs "DFG_init vs"] by blast
  finally show "create_dfg (DFG_init vs) = Inl IndexError \<longleftrightarrow>
      (\<exists>v \<in> set vs. \<exists>operation. v_value v = Some (DirectExpression operation) \<and>
         (v_function v = None \<or> is_import (the (v_function v))
          \<or> Multi [] \<in> set (payloads INTEGER operation)))"
    unfolding nb by simp
qed

definition assigned_variables :: "variable list" where
  "assigned_variables =
     [valued_variable ''a'' (Some (local_function 1 [''a''])) [Operand INTEGER (Scalar (Num 5))],
      valued_variable ''b'' (Some (local_function 1 [''a'']))
        [Operand VARIABLE (Multi [Str ''a'']), NonOperand, Operand INTEGER (Multi [Num 5, Num 6])],
      plain_variable ''c'' None False]"

lemma payloads_simps:
  "payloads ty (Operand t p # es) = (if t = ty then p # payloads ty es else payloads ty es)"
  "payloads ty (NonOperand # es) = payloads ty es"
  by (simp_all add: payloads_Cons)

theorem create_edges_fails_witness:
  "create_dfg (DFG_init assigned_variables) \<noteq> Inl IndexError \<and>
   create_dfg (DFG_init [valued_variable ''x'' (Some (import_function 2 [])) []]) = Inl IndexError"
proof
  have "\<not> (\<exists>v \<in> set assigned_variables. \<exists>operation.
          v_value v = Some (DirectExpression operation) \<and>
          (v_function v = None \<or> is_import (the (v_function v))
           \<or> Multi [] \<in> set (payloads INTEGER operation)))"
    by (simp add: assigned_variables_def valued_variable_def plain_variable_def
        local_function_def payloads_simps)
  then show "create_dfg (DFG_init assigned_variables) \<noteq> Inl IndexError"
    using create_edges_fails[of "DFG_init assigned_variables" assigned_variables, THEN conjunct2]
    by (simp only: not_False_eq_True)
next
  have "\<exists>v \<in> set [valued_variable ''x'' (Some (import_function 2 [])) []]. \<exists>operation.
          v_value v = Some (DirectExpression operation) \<and>
          (v_function v = None \<or> is_import (the (v_function v))
           \<or> Multi [] \<in> set (payloads INTEGER operation))"
    by (simp add: valued_variable_def import_function_def)
  then show "create_dfg (DFG_init [valued_variable ''x'' (Some (import_function 2 [])) []])
      = Inl IndexError"
    using create_edges_fails[of "DFG_init []"
        "[valued_variable ''x'' (Some (import_function 2 [])) []]", THEN conjunct2]
    by (simp only: simp_thms)
qed

text \<open>
  Two lists on which \<^verbatim>\<open>_create_dfg\<close> raises IndexError although the blocks were built
  from the same list: a variable without a function that is assigned a direct
  expression, and a variable that has its block and an integer-typed operand with an
  empty list.
\<close>

theorem create_dfg_fails_counterexample:
  "create_dfg (DFG_init [valued_variable ''x'' None []]) = Inl IndexError \<and>
   map name (variables_blocks (create_blocks
      (DFG_init [valued_variable ''x'' (Some (local_function 1 [])) [Operand INTEGER (Multi [])]])))
     = [''x''] \<and>
   create_dfg (DFG_init [valued_variable ''x'' (Some (local_function 1 [])) [Operand INTEGER (Multi [])]])
     = Inl IndexError"
  by (simp add: create_dfg_def create_edges_def create_functions_calls_def create_blocks_def
      DFG_init_def valued_variable_def local_function_def create_edges_variable_def
      blocks_where_def create_block_def new_DFGVariableBlock_def get_variable_name_def
      all_functions_def List.map_filter_simps is_Operand_def operand_type_def Let_def)

subsection \<open>Constant Blocks\<close>

lemma create_edges_variable_Inr:
  assumes "create_edges_variable g v = Inr g'" and "direct_operation v = Some operation"
  shows "g' = with_edges g v operation"
    and "destinations (variables_blocks g) v \<noteq> []"
    and "Multi [] \<notin> set (payloads INTEGER operation)"
  using assms by (simp_all add: create_edges_variable_spec split: if_splits)

lemma create_edges_loop_invariant:
  assumes "create_edges_loop g vs = Inr g'" and "P g"
    and step: "\<And>g v operation. P g \<Longrightarrow> v \<in> set vs \<Longrightarrow> direct_operation v = Some operation \<Longrightarrow>
                 destinations (variables_blocks g) v \<noteq> [] \<Longrightarrow>
                 Multi [] \<notin> set (payloads INTEGER operation) \<Longrightarrow> P (with_edges g v operation)"
  shows "P g'"
  using assms
proof (induction vs arbitrary: g)
  case Nil
  then show ?case by simp
next
  case (Cons v vs)
  from Cons.prems(1) obtain g1 where g1: "create_edges_variable g v = Inr g1"
    and rest: "create_edges_loop g1 vs = Inr g'"
    by (cases "create_edges_variable g v") simp_all
  have "P g1"
  proof (cases "direct_operation v")
    case None
    then have "g1 = g" using g1 by (simp add: create_edges_variable_skip)
    then show ?thesis using Cons.prems(2) by simp
  next
    case (Some operation)
    note r = create_edges_variable_Inr[OF g1 Some]
    show ?thesis
      unfolding r(1) by (rule Cons.prems(3)[OF Cons.prems(2) _ Some r(2) r(3)]) simp
  qed
  then show ?case
    by (rule Cons.IH[OF rest]) (rule Cons.prems(3), simp_all)
qed

text \<open>
  The integer-typed operands of a list of variables, each with its variable, in the
  order in which \<^verbatim>\<open>_create_edges\<close> meets them.
\<close>

definition integer_operands :: "variable list \<Rightarrow> (variable \<times> payload) list" where
  "integer_operands vs =
     concat (map (\<lambda>v. case direct_operation v of
                         None \<Rightarrow> []
                       | Some operation \<Rightarrow> map (Pair v) (payloads INTEGER operation)) vs)"

lemma enumerate_map_Pair:
  "map (\<lambda>(k, (v, p)). f v k p) (enumerate n (map (Pair v) ps))
     = map (\<lambda>(k, p). f v k p) (enumerate n ps)"
  by (induction ps arbitrary: n) simp_all

lemma constants_blocks_with_edges:
  "constants_blocks (with_edges g v operation)
     = constants_blocks g @
       map (\<lambda>(k, p). constant_block v k p)
         (enumerate (length (constants_blocks g)) (payloads INTEGER operation))"
  by (simp add: with_edges_def Let_def)

lemma create_edges_loop_constants:
  "create_edges_loop g vs = Inr g' \<Longrightarrow>
   constants_blocks g' = constants_blocks g @
     map (\<lambda>(k, (v, p)). constant_block v k p)
       (enumerate (length (constants_blocks g)) (integer_operands vs))"
proof (induction vs arbitrary: g)
  case Nil
  then show ?case by (simp add: integer_operands_def)
next
  case (Cons v vs)
  from Cons.prems obtain g1 where g1: "create_edges_variable g v = Inr g1"
    and rest: "create_edges_loop g1 vs = Inr g'"
    by (cases "create_edges_variable g v") simp_all
  let ?f = "\<lambda>(k, (v, p)). constant_block v k p"
  let ?n = "length (constants_blocks g)"
  let ?here = "case direct_operation v of None \<Rightarrow> []
                 | Some operation \<Rightarrow> map (Pair v) (payloads INTEGER operation)"
  have ops: "integer_operands (v # vs) = ?here @ integer_operands vs"
    by (simp add: integer_operands_def)
  have one: "constants_blocks g1 = constants_blocks g @ map ?f (enumerate ?n ?here)"
  proof (cases "direct_operation v")
    case None
    then have "g1 = g" using g1 by (simp add: create_edges_variable_skip)
    then show ?thesis using None by simp
  next
    case (Some operation)
    have "g1 = with_edges g v operation"
      by (rule create_edges_variable_Inr(1)[OF g1 Some])
    then show ?thesis
      using Some by (simp add: constants_blocks_with_edges enumerate_map_Pair)
  qed
  have len: "length (constants_blocks g1) = ?n + length ?here"
    unfolding one by simp
  have "constants_blocks g' = constants_blocks g1 @
      map ?f (enumerate (length (constants_blocks g1)) (integer_operands vs))"
    by (rule Cons.IH[OF rest])
  then show ?case
    unfolding ops len one by (simp add: enumerate_append_eq)
qed

lemma create_dfg_loop:
  "create_dfg (DFG_init vs)
     = create_edges_loop (create_functions_calls (create_blocks (DFG_init vs))) vs"
  by (simp add: create_dfg_def create_edges_def create_functions_calls_fields create_blocks_spec
      DFG_init_def)

lemma create_dfg_start:
  "variables_blocks (create_functions_calls (create_blocks (DFG_init vs)))
     = new_blocks (DFG_init vs) vs"
  "constants_blocks (create_functions_calls (create_blocks (DFG_init vs))) = []"
  "edges (create_functions_calls (create_blocks (DFG_init vs))) = []"
  by (simp_all add: create_functions_calls_fields create_blocks_spec DFG_init_def)

lemma create_dfg_succeeds:
  assumes "\<And>v operation. v \<in> set vs \<Longrightarrow> v_value v = Some (DirectExpression operation) \<Longrightarrow>
             has_block v \<and> Multi [] \<notin> set (payloads INTEGER operation)"
  shows "\<exists>g. create_dfg (DFG_init vs) = Inr g"
proof (cases "create_dfg (DFG_init vs)")
  case (Inr g)
  then show ?thesis by simp
next
  case (Inl e)
  then have "create_edges_loop (create_functions_calls (create_blocks (DFG_init vs))) vs
      = Inl IndexError"
    unfolding create_dfg_loop by (cases e) simp
  then obtain v where v: "v \<in> set vs" and f: "fails_on (new_blocks (DFG_init vs) vs) v"
    unfolding create_edges_loop_fails create_dfg_start by (elim bexE)
  from f obtain operation where val: "v_value v = Some (DirectExpression operation)"
    and bad: "destinations (new_blocks (DFG_init vs) vs) v = []
                \<or> Multi [] \<in> set (payloads INTEGER operation)"
    unfolding fails_on_iff by (elim exE conjE)
  have "has_block v \<and> Multi [] \<notin> set (payloads INTEGER operation)"
    by (rule assms[OF v val])
  then show ?thesis
    using bad destinations_new_blocks[OF v, of "DFG_init vs"] by simp
qed

text \<open>Two assignments that both refer to the literal 5, one of them through a list.\<close>

definition two_fives :: "variable list" where
  "two_fives =
     [valued_variable ''a'' (Some (local_function 1 [])) [Operand INTEGER (Scalar (Num 5))],
      plain_variable ''c'' None False,
      valued_variable ''b'' (Some (local_function 1 []))
        [Operand INTEGER (Multi [Num 5, Num 6]), NonOperand, Operand INTEGER (Scalar (Num 7))]]"

text \<open>
  Claim C6. When the loop body of \<^verbatim>\<open>_create_edges\<close> returns for a Variable with a direct
  expression, it has appended one Constant Block per integer-typed operand, in the order
  of the operands: the id is the number of Constant Blocks at that moment, the value is
  the payload, or element 0 of a list payload, and the variable and the function are
  those of the destination; the last edges are the edges from these blocks to the
  destination. After \<^verbatim>\<open>_create_dfg\<close> the Constant Blocks are those of all integer-typed
  operands, the block at position \<open>k\<close> has id \<open>k\<close>, and no two share an id. The loop body
  returns when the destination block exists and no integer-typed operand is an empty
  list.
\<close>

theorem create_edges_constants:
  "(v_value v = Some (DirectExpression operation) \<and> create_edges_variable g v = Inr g' \<longrightarrow>
      (let n = length (constants_blocks g);
           ps = payloads INTEGER operation;
           d = blocks_where (variables_blocks g)
                 (\<lambda>b. v_function v = Some (func b) \<and> v_name v = name b) ! 0
       in Multi [] \<notin> set ps
        \<and> constants_blocks g' = constants_blocks g @
            map (\<lambda>(k, p). \<lparr> c_value = (case p of Scalar x \<Rightarrow> x | Multi xs \<Rightarrow> xs ! 0), c_id = k,
                             c_variable = v, c_function = v_function v \<rparr>) (enumerate n ps)
        \<and> drop (length (edges g') - length ps) (edges g')
            = map (\<lambda>k. \<lparr> e_source = ConstantSource k, e_destination = d,
                          e_function = v_function v \<rparr>) [n ..< n + length ps]))
   \<and> (create_dfg (DFG_init vs) = Inr g'' \<longrightarrow>
        constants_blocks g''
          = map (\<lambda>(k, (v, p)). \<lparr> c_value = (case p of Scalar x \<Rightarrow> x | Multi xs \<Rightarrow> xs ! 0),
                                  c_id = k, c_variable = v, c_function = v_function v \<rparr>)
              (enumerate 0 (integer_operands vs))
      \<and> map c_id (constants_blocks g'') = [0 ..< length (constants_blocks g'')]
      \<and> distinct (map c_id (constants_blocks g''))
      \<and> length (constants_blocks g'') = length (integer_operands vs))
   \<and> (v_value v = Some (DirectExpression operation)
        \<and> (\<exists>i<length (variables_blocks g).
               v_function v = Some (func (variables_blocks g ! i)) \<and>
               v_name v = name (variables_blocks g ! i))
        \<and> Multi [] \<notin> set (payloads INTEGER operation) \<longrightarrow>
        (\<exists>g'. create_edges_variable g v = Inr g'))"
proof (intro conjI impI)
  assume a: "v_value v = Some (DirectExpression operation) \<and> create_edges_variable g v = Inr g'"
  then have dir: "direct_operation v = Some operation"
    by (simp add: direct_operation_Some)
  note r = create_edges_variable_Inr[OF a[THEN conjunct2] dir]
  let ?n = "length (constants_blocks g)"
  let ?ps = "payloads INTEGER operation"
  let ?d = "blocks_where (variables_blocks g)
                 (\<lambda>b. v_function v = Some (func b) \<and> v_name v = name b) ! 0"
  have 1: "constants_blocks g' = constants_blocks g @
            map (\<lambda>(k, p). \<lparr> c_value = (case p of Scalar x \<Rightarrow> x | Multi xs \<Rightarrow> xs ! 0), c_id = k,
                             c_variable = v, c_function = v_function v \<rparr>) (enumerate ?n ?ps)"
    unfolding r(1) constants_blocks_with_edges constant_block_def literal_def ..
  have 2: "drop (length (edges g') - length ?ps) (edges g')
            = map (\<lambda>k. \<lparr> e_source = ConstantSource k, e_destination = ?d,
                          e_function = v_function v \<rparr>) [?n ..< ?n + length ?ps]"
    unfolding r(1)
    by (simp add: with_edges_def Let_def destinations_def constant_edge_def)
  show "let n = length (constants_blocks g);
           ps = payloads INTEGER operation;
           d = blocks_where (variables_blocks g)
                 (\<lambda>b. v_function v = Some (func b) \<and> v_name v = name b) ! 0
       in Multi [] \<notin> set ps
        \<and> constants_blocks g' = constants_blocks g @
            map (\<lambda>(k, p). \<lparr> c_value = (case p of Scalar x \<Rightarrow> x | Multi xs \<Rightarrow> xs ! 0), c_id = k,
                             c_variable = v, c_function = v_function v \<rparr>) (enumerate n ps)
        \<and> drop (length (edges g') - length ps) (edges g')
            = map (\<lambda>k. \<lparr> e_source = ConstantSource k, e_destination = d,
                          e_function = v_function v \<rparr>) [n ..< n + length ps]"
    unfolding Let_def using r(3) 1 2 by (intro conjI)
next
  assume "create_dfg (DFG_init vs) = Inr g''"
  then have loop: "create_edges_loop (create_functions_calls (create_blocks (DFG_init vs))) vs
      = Inr g''"
    by (simp only: create_dfg_loop)
  have cs: "constants_blocks g''
      = map (\<lambda>(k, (v, p)). constant_block v k p) (enumerate 0 (integer_operands vs))"
    using create_edges_loop_constants[OF loop] by (simp add: create_dfg_start)
  show "constants_blocks g''
          = map (\<lambda>(k, (v, p)). \<lparr> c_value = (case p of Scalar x \<Rightarrow> x | Multi xs \<Rightarrow> xs ! 0),
                                  c_id = k, c_variable = v, c_function = v_function v \<rparr>)
              (enumerate 0 (integer_operands vs))"
    unfolding cs constant_block_def literal_def ..
  have ids: "map c_id (constants_blocks g'') = map fst (enumerate 0 (integer_operands vs))"
    unfolding cs by (simp add: constant_block_def case_prod_beta comp_def)
  show len: "length (constants_blocks g'') = length (integer_operands vs)"
    unfolding cs by simp
  show id: "map c_id (constants_blocks g'') = [0 ..< length (constants_blocks g'')]"
    unfolding ids len by simp
  show "distinct (map c_id (constants_blocks g''))"
    unfolding id by simp
next
  assume a: "v_value v = Some (DirectExpression operation)
        \<and> (\<exists>i<length (variables_blocks g).
               v_function v = Some (func (variables_blocks g ! i)) \<and>
               v_name v = name (variables_blocks g ! i))
        \<and> Multi [] \<notin> set (payloads INTEGER operation)"
  then have dir: "direct_operation v = Some operation"
    by (simp add: direct_operation_Some)
  have "destinations (variables_blocks g) v \<noteq> []"
    unfolding destinations_Nil using a by simp
  then have "create_edges_variable g v = Inr (with_edges g v operation)"
    using a by (simp add: create_edges_variable_spec[OF dir])
  then show "\<exists>g'. create_edges_variable g v = Inr g'" ..
qed

theorem create_edges_constants_witness:
  "\<exists>g. create_dfg (DFG_init two_fives) = Inr g
      \<and> map c_value (constants_blocks g) = [Num 5, Num 5, Num 7]
      \<and> map c_id (constants_blocks g) = [0, 1, 2]
      \<and> map (v_name \<circ> c_variable) (constants_blocks g) = [''a'', ''b'', ''b'']"
proof -
  have "\<exists>g. create_dfg (DFG_init two_fives) = Inr g"
    by (rule create_dfg_succeeds)
       (auto simp: two_fives_def valued_variable_def plain_variable_def local_function_def
          has_block_def payloads_simps)
  then obtain g where g: "create_dfg (DFG_init two_fives) = Inr g" ..
  have ops: "integer_operands two_fives
      = [(two_fives ! 0, Scalar (Num 5)), (two_fives ! 2, Multi [Num 5, Num 6]),
         (two_fives ! 2, Scalar (Num 7))]"
    by (simp add: integer_operands_def two_fives_def direct_operation_def valued_variable_def
        plain_variable_def payloads_simps)
  note inst = create_edges_constants[of _ _ _ _ two_fives g, THEN conjunct2, THEN conjunct1, THEN mp, OF g,
      THEN conjunct1]
  have "map c_value (constants_blocks g) = [Num 5, Num 5, Num 7]"
    and "map c_id (constants_blocks g) = [0, 1, 2]"
    and "map (v_name \<circ> c_variable) (constants_blocks g) = [''a'', ''b'', ''b'']"
    unfolding inst ops
    by (simp_all add: enumerate_simps two_fives_def valued_variable_def)
  then show ?thesis using g by (intro exI[of _ g] conjI)
qed

subsection \<open>Edges between Variable Blocks\<close>

text \<open>
  Three blocks \<^verbatim>\<open>a\<close>, \<^verbatim>\<open>b\<close>, \<^verbatim>\<open>c\<close> of one function without relations, and the variable
  \<^verbatim>\<open>c\<close> assigned from the list \<^verbatim>\<open>[a, b]\<close>, the literal 1 and the scalar \<^verbatim>\<open>a\<close>.
\<close>

definition sample_function :: func where
  "sample_function = local_function 1 [''a'']"

definition sample_block :: "string \<Rightarrow> DFGVariableBlock" where
  "sample_block n = new_DFGVariableBlock n sample_function False False"

definition sample_graph :: DFG where
  "sample_graph =
     \<lparr> variables = [], variables_blocks = [sample_block ''a'', sample_block ''b'', sample_block ''c''],
       constants_blocks = [], functions_calls_blocks = [], edges = [],
       all_functions_arguments = [''a''] \<rparr>"

definition sample_variable :: variable where
  "sample_variable =
     valued_variable ''c'' (Some sample_function)
       [Operand VARIABLE (Multi [Str ''a'', Str ''b'']), Operand INTEGER (Scalar (Num 1)),
        Operand VARIABLE (Scalar (Str ''a''))]"

lemma destinations_hd:
  assumes "destinations bs v \<noteq> []"
  shows "destinations bs v ! 0 < length bs"
    and "v_function v = Some (func (bs ! (destinations bs v ! 0)))"
    and "v_name v = name (bs ! (destinations bs v ! 0))"
proof -
  have "destinations bs v ! 0 \<in> set (destinations bs v)"
    using assms by (intro nth_mem) simp
  then have "destinations bs v ! 0 < length bs
      \<and> v_function v = Some (func (bs ! (destinations bs v ! 0)))
      \<and> v_name v = name (bs ! (destinations bs v ! 0))"
    unfolding destinations_def blocks_where_set by simp
  then show "destinations bs v ! 0 < length bs"
    and "v_function v = Some (func (bs ! (destinations bs v ! 0)))"
    and "v_name v = name (bs ! (destinations bs v ! 0))"
    by simp_all
qed

lemma unlinked_eq:
  "unlinked b' = unlinked b \<longleftrightarrow>
     b' = b\<lparr>parents_blocks := parents_blocks b', children_blocks := children_blocks b'\<rparr>"
  by (cases b; cases b') (auto simp: unlinked_def)



subsection \<open>Relations and edges\<close>

text \<open>
  The sources of the edges of a list that are Variable Blocks, and those that are
  Constant Blocks.
\<close>

definition variable_sources :: "DFGEdge list \<Rightarrow> nat list" where
  "variable_sources es =
     concat (map (\<lambda>e. case e_source e of VariableSource s \<Rightarrow> [s] | ConstantSource k \<Rightarrow> []) es)"

definition constant_sources :: "DFGEdge list \<Rightarrow> nat list" where
  "constant_sources es =
     concat (map (\<lambda>e. case e_source e of VariableSource s \<Rightarrow> [] | ConstantSource k \<Rightarrow> [k]) es)"

text \<open>
  The relational lists mirror the edges between Variable Blocks: the children of a block
  are the destinations of the edges that leave it, the parents of a block are the
  Variable Blocks at the source of the edges that enter it, and every Constant Block is
  the source of one edge.
\<close>

definition mirrored :: "DFG \<Rightarrow> bool" where
  "mirrored g =
     ((\<forall>i<length (variables_blocks g).
         children_blocks (variables_blocks g ! i)
           = map e_destination (filter (\<lambda>e. e_source e = VariableSource i) (edges g))
       \<and> parents_blocks (variables_blocks g ! i)
           = variable_sources (filter (\<lambda>e. e_destination e = i) (edges g)))
      \<and> (\<forall>e \<in> set (edges g). e_destination e < length (variables_blocks g))
      \<and> set (variable_sources (edges g)) \<subseteq> {..<length (variables_blocks g)}
      \<and> constant_sources (edges g) = [0..<length (constants_blocks g)])"

lemma variable_sources_append [simp]:
  "variable_sources (es @ es') = variable_sources es @ variable_sources es'"
  by (simp add: variable_sources_def)

lemma constant_sources_append [simp]:
  "constant_sources (es @ es') = constant_sources es @ constant_sources es'"
  by (simp add: constant_sources_def)

lemma out_variable_edges:
  "map e_destination (filter (\<lambda>e. e_source e = VariableSource i) (map (variable_edge d f) srcs))
     = replicate (count_list srcs i) d"
  by (induction srcs) (simp_all add: variable_edge_def)

lemma out_constant_edges:
  "filter (\<lambda>e. e_source e = VariableSource i) (map (constant_edge d f) ks) = []"
  by (induction ks) (simp_all add: constant_edge_def)

lemma in_variable_edges:
  "variable_sources (filter (\<lambda>e. e_destination e = i) (map (variable_edge d f) srcs))
     = (if i = d then srcs else [])"
proof (cases "i = d")
  case True
  then show ?thesis
    by (induction srcs) (simp_all add: variable_edge_def variable_sources_def)
next
  case False
  then show ?thesis
    by (induction srcs) (simp_all add: variable_edge_def variable_sources_def)
qed

lemma variable_sources_constant_edges:
  "variable_sources (filter P (map (constant_edge d f) ks)) = []"
  by (induction ks) (simp_all add: constant_edge_def variable_sources_def)

lemma variable_sources_variable_edges:
  "variable_sources (map (variable_edge d f) srcs) = srcs"
  by (induction srcs) (simp_all add: variable_edge_def variable_sources_def)

lemma constant_sources_variable_edges:
  "constant_sources (map (variable_edge d f) srcs) = []"
  by (induction srcs) (simp_all add: variable_edge_def constant_sources_def)

lemma constant_sources_constant_edges:
  "constant_sources (map (constant_edge d f) ks) = ks"
  by (induction ks) (simp_all add: constant_edge_def constant_sources_def)

lemma resolve_lt: "s \<in> set (resolve bs v p) \<Longrightarrow> s < length bs"
  by (cases p) (simp_all add: resolve_def blocks_where_set)

lemma with_edges_fields:
  "variables_blocks (with_edges g v operation)
     = foldl (\<lambda>bs. link bs (destinations (variables_blocks g) v ! 0)) (variables_blocks g)
         (concat (map (resolve (variables_blocks g) v) (payloads VARIABLE operation)))"
  "edges (with_edges g v operation)
     = edges g @
       map (variable_edge (destinations (variables_blocks g) v ! 0) (v_function v))
         (concat (map (resolve (variables_blocks g) v) (payloads VARIABLE operation))) @
       map (constant_edge (destinations (variables_blocks g) v ! 0) (v_function v))
         [length (constants_blocks g) ..<
            length (constants_blocks g) + length (payloads INTEGER operation)]"
  "length (constants_blocks (with_edges g v operation))
     = length (constants_blocks g) + length (payloads INTEGER operation)"
  by (simp_all add: with_edges_def Let_def)

lemma mirrored_with_edges:
  assumes m: "mirrored g" and ne: "destinations (variables_blocks g) v \<noteq> []"
  shows "mirrored (with_edges g v operation)"
proof -
  let ?bs = "variables_blocks g"
  let ?d = "destinations ?bs v ! 0"
  let ?srcs = "concat (map (resolve ?bs v) (payloads VARIABLE operation))"
  let ?n = "length (constants_blocks g)"
  let ?ks = "[?n ..< ?n + length (payloads INTEGER operation)]"
  let ?g' = "with_edges g v operation"
  have d: "?d < length ?bs"
    by (rule destinations_hd(1)[OF ne])
  have srcs: "set ?srcs \<subseteq> {..<length ?bs}"
    using resolve_lt[of _ ?bs v] by auto
  have len: "length (variables_blocks ?g') = length ?bs"
    by (simp add: with_edges_fields)
  from m have m1: "\<And>i. i < length ?bs \<Longrightarrow> children_blocks (?bs ! i)
           = map e_destination (filter (\<lambda>e. e_source e = VariableSource i) (edges g))"
    and m2: "\<And>i. i < length ?bs \<Longrightarrow> parents_blocks (?bs ! i)
           = variable_sources (filter (\<lambda>e. e_destination e = i) (edges g))"
    and m3: "\<And>e. e \<in> set (edges g) \<Longrightarrow> e_destination e < length ?bs"
    and m4: "set (variable_sources (edges g)) \<subseteq> {..<length ?bs}"
    and m5: "constant_sources (edges g) = [0..<?n]"
    unfolding mirrored_def by simp_all
  have 1: "children_blocks (variables_blocks ?g' ! i)
           = map e_destination (filter (\<lambda>e. e_source e = VariableSource i) (edges ?g'))"
    if "i < length ?bs" for i
    unfolding with_edges_fields
    by (simp add: children_foldl_link[OF that] m1[OF that] out_variable_edges out_constant_edges)
  have 2: "parents_blocks (variables_blocks ?g' ! i)
           = variable_sources (filter (\<lambda>e. e_destination e = i) (edges ?g'))"
    if "i < length ?bs" for i
    unfolding with_edges_fields
    by (simp add: parents_foldl_link[OF that] m2[OF that] in_variable_edges
        variable_sources_constant_edges)
  have 3: "e_destination e < length ?bs" if "e \<in> set (edges ?g')" for e
    using that m3 d unfolding with_edges_fields
    by (auto simp: variable_edge_def constant_edge_def)
  have 4: "set (variable_sources (edges ?g')) \<subseteq> {..<length ?bs}"
    unfolding with_edges_fields
    using m4 srcs
    by (simp add: variable_sources_variable_edges
        variable_sources_constant_edges[of "\<lambda>e. True", simplified])
  have "[0 ..< ?n + length (payloads INTEGER operation)] = [0..<?n] @ ?ks"
    by (rule upt_add_eq_append) simp
  then have 5: "constant_sources (edges ?g') = [0..<length (constants_blocks ?g')]"
    unfolding with_edges_fields
    by (simp add: m5 constant_sources_variable_edges constant_sources_constant_edges)
  show ?thesis
    unfolding mirrored_def len using 1 2 3 4 5 by (intro conjI allI impI ballI)
qed

lemma new_blocks_relations:
  assumes "i < length (filter has_block vs)"
  shows "children_blocks (new_blocks g vs ! i) = []"
    and "parents_blocks (new_blocks g vs ! i) = []"
  using assms
  by (simp_all add: new_blocks_def create_block_def new_DFGVariableBlock_def Let_def)

lemma mirrored_start: "mirrored (create_functions_calls (create_blocks (DFG_init vs)))"
  unfolding mirrored_def create_dfg_start
  by (simp add: new_blocks_relations variable_sources_def constant_sources_def)

lemma variable_sources_filter:
  "set (variable_sources (filter P es)) \<subseteq> set (variable_sources es)"
  by (induction es) (auto simp: variable_sources_def)

lemma create_dfg_mirrored:
  assumes "create_dfg (DFG_init vs) = Inr g"
  shows "mirrored g"
proof -
  have loop: "create_edges_loop (create_functions_calls (create_blocks (DFG_init vs))) vs = Inr g"
    using assms by (simp only: create_dfg_loop)
  show ?thesis
    by (rule create_edges_loop_invariant[where P = mirrored, OF loop mirrored_start])
       (rule mirrored_with_edges)
qed

text \<open>
  The variables \<^verbatim>\<open>a\<close>, \<^verbatim>\<open>b\<close> and \<^verbatim>\<open>c\<close> of one function, \<^verbatim>\<open>c\<close> assigned from the list
  \<^verbatim>\<open>[a, b]\<close>, the literal 1 and the scalar \<^verbatim>\<open>a\<close>.
\<close>

definition linked_variables :: "variable list" where
  "linked_variables =
     [plain_variable ''a'' (Some sample_function) True,
      plain_variable ''b'' (Some sample_function) False,
      sample_variable]"

text \<open>
  Claim C10. After \<^verbatim>\<open>_create_dfg\<close> every element of a \<open>parents_blocks\<close> or
  \<open>children_blocks\<close> list is the address of a Variable Block. The children of a block
  are the destinations of the edges whose source is that Variable Block, and its parents
  are the Variable Blocks at the source of the edges that enter it, in the order of the
  edge list; the edges from Constant Blocks are in the edge list, one per Constant Block,
  and in neither relation. No taint operation changes the Constant Blocks, the edges or
  the children lists that propagation follows.
\<close>

theorem create_dfg_relations:
  "create_dfg (DFG_init vs) = Inr g \<longrightarrow>
     (\<forall>i<length (variables_blocks g).
         (\<forall>c \<in> set (children_blocks (variables_blocks g ! i)). c < length (variables_blocks g))
       \<and> (\<forall>p \<in> set (parents_blocks (variables_blocks g ! i)). p < length (variables_blocks g))
       \<and> children_blocks (variables_blocks g ! i)
           = map e_destination (filter (\<lambda>e. e_source e = VariableSource i) (edges g))
       \<and> parents_blocks (variables_blocks g ! i)
           = variable_sources (filter (\<lambda>e. e_destination e = i) (edges g)))
   \<and> constant_sources (edges g) = [0..<length (constants_blocks g)]
   \<and> (\<forall>e \<in> set (edges g). e_destination e < length (variables_blocks g))
   \<and> wf_store (variables_blocks g)
   \<and> (\<forall>operations.
         constants_blocks (run_taint_operations g operations) = constants_blocks g
       \<and> edges (run_taint_operations g operations) = edges g
       \<and> map children_blocks (variables_blocks (run_taint_operations g operations))
           = map children_blocks (variables_blocks g))"
proof
  assume a: "create_dfg (DFG_init vs) = Inr g"
  let ?bs = "variables_blocks g"
  from create_dfg_mirrored[OF a]
  have m1: "\<And>i. i < length ?bs \<Longrightarrow> children_blocks (?bs ! i)
           = map e_destination (filter (\<lambda>e. e_source e = VariableSource i) (edges g))"
    and m2: "\<And>i. i < length ?bs \<Longrightarrow> parents_blocks (?bs ! i)
           = variable_sources (filter (\<lambda>e. e_destination e = i) (edges g))"
    and m3: "\<And>e. e \<in> set (edges g) \<Longrightarrow> e_destination e < length ?bs"
    and m4: "set (variable_sources (edges g)) \<subseteq> {..<length ?bs}"
    and m5: "constant_sources (edges g) = [0..<length (constants_blocks g)]"
    unfolding mirrored_def by simp_all
  have c: "c < length ?bs" if "i < length ?bs" "c \<in> set (children_blocks (?bs ! i))" for i c
    using that(2) m3 unfolding m1[OF that(1)] by auto
  have p: "p < length ?bs" if "i < length ?bs" "p \<in> set (parents_blocks (?bs ! i))" for i p
    using that(2) m4 variable_sources_filter[of "\<lambda>e. e_destination e = i" "edges g"]
    unfolding m2[OF that(1)] by auto
  have 1: "\<forall>i<length ?bs.
         (\<forall>c \<in> set (children_blocks (?bs ! i)). c < length ?bs)
       \<and> (\<forall>p \<in> set (parents_blocks (?bs ! i)). p < length ?bs)
       \<and> children_blocks (?bs ! i)
           = map e_destination (filter (\<lambda>e. e_source e = VariableSource i) (edges g))
       \<and> parents_blocks (?bs ! i)
           = variable_sources (filter (\<lambda>e. e_destination e = i) (edges g))"
    using c p m1 m2 by (intro allI impI conjI ballI)
  have 3: "\<forall>e \<in> set (edges g). e_destination e < length ?bs"
    using m3 by (intro ballI)
  have 4: "wf_store ?bs"
    unfolding wf_store_def
  proof (intro ballI)
    fix b c assume "b \<in> set ?bs" and cc: "c \<in> set (children_blocks b)"
    then obtain i where i: "i < length ?bs" "?bs ! i = b"
      unfolding in_set_conv_nth by (elim exE conjE)
    show "c < length ?bs" using c[OF i(1)] cc i(2) by simp
  qed
  have 5: "\<forall>operations.
         constants_blocks (run_taint_operations g operations) = constants_blocks g
       \<and> edges (run_taint_operations g operations) = edges g
       \<and> map children_blocks (variables_blocks (run_taint_operations g operations))
           = map children_blocks (variables_blocks g)"
  proof (intro allI)
    fix operations
    obtain bs where bs: "run_taint_operations g operations = g\<lparr>variables_blocks := bs\<rparr>"
      and u: "untainted bs = untainted (variables_blocks g)"
      using run_taint_operations_frame[of g operations] by (elim exE conjE)
    show "constants_blocks (run_taint_operations g operations) = constants_blocks g
       \<and> edges (run_taint_operations g operations) = edges g
       \<and> map children_blocks (variables_blocks (run_taint_operations g operations))
           = map children_blocks (variables_blocks g)"
      unfolding bs using untainted_fields(2)[OF u] by simp
  qed
  from 1 m5 3 4 5 show "(\<forall>i<length (variables_blocks g).
         (\<forall>c \<in> set (children_blocks (variables_blocks g ! i)). c < length (variables_blocks g))
       \<and> (\<forall>p \<in> set (parents_blocks (variables_blocks g ! i)). p < length (variables_blocks g))
       \<and> children_blocks (variables_blocks g ! i)
           = map e_destination (filter (\<lambda>e. e_source e = VariableSource i) (edges g))
       \<and> parents_blocks (variables_blocks g ! i)
           = variable_sources (filter (\<lambda>e. e_destination e = i) (edges g)))
   \<and> constant_sources (edges g) = [0..<length (constants_blocks g)]
   \<and> (\<forall>e \<in> set (edges g). e_destination e < length (variables_blocks g))
   \<and> wf_store (variables_blocks g)
   \<and> (\<forall>operations.
         constants_blocks (run_taint_operations g operations) = constants_blocks g
       \<and> edges (run_taint_operations g operations) = edges g
       \<and> map children_blocks (variables_blocks (run_taint_operations g operations))
           = map children_blocks (variables_blocks g))"
    by (intro conjI)
qed

lemma linked_eval:
  "\<exists>g. create_dfg (DFG_init linked_variables) = Inr g
      \<and> map children_blocks (variables_blocks g) = [[2], [2], [2]]
      \<and> map parents_blocks (variables_blocks g) = [[], [], [0, 1, 2]]
      \<and> map e_source (edges g)
          = [VariableSource 0, VariableSource 1, VariableSource 2, ConstantSource 0]
      \<and> length (constants_blocks g) = 1"
  by (simp add: create_dfg_def create_edges_def create_functions_calls_def create_blocks_def
      DFG_init_def linked_variables_def sample_variable_def sample_function_def
      valued_variable_def plain_variable_def local_function_def create_edges_variable_def
      blocks_where_def create_block_def new_DFGVariableBlock_def get_variable_name_def
      all_functions_def List.map_filter_simps is_Operand_def operand_type_def Let_def
      add_constant_def str_int_def upt_conv_Cons)

theorem create_dfg_relations_witness:
  "\<exists>g. create_dfg (DFG_init linked_variables) = Inr g
      \<and> map children_blocks (variables_blocks g) = [[2], [2], [2]]
      \<and> map parents_blocks (variables_blocks g) = [[], [], [0, 1, 2]]
      \<and> map e_source (edges g)
          = [VariableSource 0, VariableSource 1, VariableSource 2, ConstantSource 0]
      \<and> constant_sources (edges g) = [0]
      \<and> wf_store (variables_blocks g)"
proof -
  from linked_eval obtain g where g: "create_dfg (DFG_init linked_variables) = Inr g"
    and c: "map children_blocks (variables_blocks g) = [[2], [2], [2]]"
    and p: "map parents_blocks (variables_blocks g) = [[], [], [0, 1, 2]]"
    and e: "map e_source (edges g)
          = [VariableSource 0, VariableSource 1, VariableSource 2, ConstantSource 0]"
    and n: "length (constants_blocks g) = 1"
    by (elim exE conjE)
  note inst = create_dfg_relations[of linked_variables g, THEN mp, OF g]
  have k: "constant_sources (edges g) = [0]"
    using inst[THEN conjunct2, THEN conjunct1] n by simp
  have w: "wf_store (variables_blocks g)"
    by (rule inst[THEN conjunct2, THEN conjunct2, THEN conjunct2, THEN conjunct1])
  from g c p e k w show ?thesis
    by (intro exI[of _ g] conjI)
qed

end
